theory Spec2Isabelle
  imports Complex_Main
begin

section \<open>Multi-leg route search: the POST handler of routes/api/routing/search\<close>

text \<open>
  The handler reads a JSON request, resolves every input point to its nearest graph
  vertex, compiles the user's constraints into a WHERE clause, asks pgr_dijkstra for
  every leg under two cost metrics and stitches the legs of each metric into one route.

  Conventions of the embedding.
  \<^item> A JavaScript number that takes part in arithmetic (the costs, lengths and minutes
    of the rows, and their sums) is a finite IEEE 754 double, with the rounding of every
    operation. A number of the request is only compared or passed on, and is a
    \<open>real\<close>. The integer columns (\<open>seq\<close>, the vertex and edge ids) are \<open>int\<close>.
  \<^item> A value that may be \<open>null\<close> or \<open>undefined\<close> is an \<open>option\<close>.
  \<^item> The database is a parameter: a record of the two queries the handler sends, each
    of which either rejects or returns its rows.
  \<^item> Every query the handler sends is appended to a log, returned with the response.
  \<^item> The display strings (\<open>error\<close>, \<open>label\<close>) are fixed by the response kind and by
    \<open>routeType\<close>, and are left out.
  \<^item> A field name that several objects share carries a prefix in all but one of them
    (\<open>wp_\<close>, \<open>area_\<close>, \<open>seg_\<close>, \<open>route_\<close>, \<open>leg_\<close>, \<open>r_\<close>, \<open>c_\<close>); the
    field \<open>type\<close> of a point is \<open>ptype\<close>, with the labels \<open>start\<close>,
    \<open>waypoint-i\<close> and \<open>end\<close> as \<open>Start\<close>, \<open>Waypoint i\<close> and \<open>End\<close>.
\<close>

subsection \<open>Request\<close>

record waypoint =
  wp_lat :: "real option"
  wp_lon :: "real option"

record area =
  area_lat :: real
  area_lon :: real
  radius :: "real option"

record request =
  startLat :: "real option"
  startLon :: "real option"
  endLat :: "real option"
  endLon :: "real option"
  waypoints :: "waypoint list"
  avoidMotorways :: bool
  vehicleWidth :: "real option"
  vehicleHeight :: "real option"
  avoidAreas :: "area list"

text \<open>
  \<open>!x\<close> on a coordinate read from JSON: true for a missing or null value and for
  the number 0.
\<close>

definition falsy :: "real option \<Rightarrow> bool" where
  "falsy x = (case x of None \<Rightarrow> True | Some v \<Rightarrow> v = 0)"

text \<open>\<open>x || d\<close> on an optional number.\<close>

definition orElse :: "real option \<Rightarrow> real \<Rightarrow> real" where
  "orElse x d = (if falsy x then d else the x)"

subsection \<open>Points and their nearest vertices\<close>

datatype point_type = Start | Waypoint nat | End

record point =
  lat :: "real option"
  lon :: "real option"
  ptype :: point_type

record nodeResult = point +
  nodeId :: "int option"
  found :: bool

subsection \<open>Doubles\<close>

text \<open>
  A finite double is \<open>significand * 2 ^ exponent\<close>, with an integer significand of
  at most 53 bits. Every operation computes the exact result and rounds it to 53 bits,
  to the nearest value and to the even significand on a tie, as IEEE 754 does by
  default. The exponent is not bounded: overflow to Infinity, and NaN, are outside the
  model. One value has several representations, so doubles are compared by \<open>dval\<close>.
\<close>

datatype double = Double (significand: int) (exponent: int)

definition dval :: "double \<Rightarrow> real" where
  "dval x =
     (if 0 \<le> exponent x then of_int (significand x) * 2 ^ nat (exponent x)
      else of_int (significand x) / 2 ^ nat (- exponent x))"

text \<open>The number of bits of a positive integer, 0 for the others.\<close>

function bitlength :: "int \<Rightarrow> nat" where
  "bitlength n = (if n \<le> 0 then 0 else Suc (bitlength (n div 2)))"
  by pat_completeness auto
termination
  by (relation "measure nat") auto

text \<open>\<open>m / 2 ^ k\<close>, rounded to the nearest integer, to the even one on a tie.\<close>

definition round_shift :: "int \<Rightarrow> nat \<Rightarrow> int" where
  "round_shift m k =
     (let q = m div 2 ^ k; r = m mod 2 ^ k; h = 2 ^ (k - 1)
      in if k = 0 then m
         else if r < h then q
         else if h < r then q + 1
         else if even q then q else q + 1)"

text \<open>The double nearest to \<open>m * 2 ^ e\<close>.\<close>

definition to_double :: "int \<Rightarrow> int \<Rightarrow> double" where
  "to_double m e =
     (let k = bitlength \<bar>m\<bar> - 53
      in Double (round_shift m k) (e + int k))"

text \<open>\<open>x + y\<close>, \<open>x - y\<close> and \<open>x * y\<close> on doubles.\<close>

definition fadd :: "double \<Rightarrow> double \<Rightarrow> double" where
  "fadd x y =
     (let e = min (exponent x) (exponent y)
      in to_double (significand x * 2 ^ nat (exponent x - e) +
                    significand y * 2 ^ nat (exponent y - e)) e)"

definition fsub :: "double \<Rightarrow> double \<Rightarrow> double" where
  "fsub x y =
     (let e = min (exponent x) (exponent y)
      in to_double (significand x * 2 ^ nat (exponent x - e) -
                    significand y * 2 ^ nat (exponent y - e)) e)"

definition fmul :: "double \<Rightarrow> double \<Rightarrow> double" where
  "fmul x y = to_double (significand x * significand y) (exponent x + exponent y)"

text \<open>\<open>x || d\<close> on a double that may be null: 0 is falsy.\<close>

definition orElse_d :: "double option \<Rightarrow> double \<Rightarrow> double" where
  "orElse_d x d =
     (case x of None \<Rightarrow> d | Some v \<Rightarrow> if significand v = 0 then d else v)"

subsection \<open>Rows of pgr_dijkstra, legs, stitched segments\<close>

record row =
  seq :: int
  path_seq :: int
  node :: int
  edge :: int
  cost :: double
  agg_cost :: double
  geom :: "string option"
  name :: "string option"
  length_m :: "double option"
  cost_minutes :: "double option"
  road_type :: "string option"

record leg =
  fromIndex :: nat
  toIndex :: nat
  fromPoint :: "point option"
  toPoint :: "point option"
  rows :: "row list"

record segment =
  sequence :: int
  seg_node :: int
  seg_edge :: int
  seg_cost :: double
  costMinutes :: "double option"
  accumulatedCost :: double
  geometry :: "string option"
  seg_name :: "string option"
  seg_length :: "double option"
  roadType :: "string option"
  legIndex :: nat

datatype route_type = Shortest | Fastest

record legSummary =
  leg_from :: "point option"
  leg_to :: "point option"
  distance :: double
  minutes :: double

record resolvedWaypoint = waypoint +
  wp_nodeId :: "int option"

record route =
  routeType :: route_type
  startNode :: "int option"
  endNode :: "int option"
  route_waypoints :: "resolvedWaypoint list"
  route_totalCost :: double
  route_totalDistance :: double
  route_totalMinutes :: double
  estimatedDuration :: double
  segments :: "segment list"
  legs :: "legSummary list"

subsection \<open>formatMultiLegRoute\<close>

text \<open>\<open>leg.rows.reduce((sum, row) => sum + (row.length_m || 0), 0)\<close> and its twin.\<close>

definition legDistance :: "leg \<Rightarrow> double" where
  "legDistance l =
     foldl (\<lambda>sum r. fadd sum (orElse_d (length_m r) (Double 0 0))) (Double 0 0) (rows l)"

definition legMinutes :: "leg \<Rightarrow> double" where
  "legMinutes l =
     foldl (\<lambda>sum r. fadd sum (orElse_d (cost_minutes r) (Double 0 0))) (Double 0 0) (rows l)"

text \<open>
  \<open>leg.rows[leg.rows.length - 1]?.agg_cost || 0\<close>: the last row's aggregate cost,
  0 for a leg without rows.
\<close>

definition legCost :: "leg \<Rightarrow> double" where
  "legCost l =
     (if rows l = [] then Double 0 0
      else orElse_d (Some (agg_cost (last (rows l)))) (Double 0 0))"

text \<open>The loop variables of the stitching loop.\<close>

record stitch_state =
  allSegments :: "segment list"
  totalDistance :: double
  totalMinutes :: double
  totalCost :: double
  sequenceOffset :: int

definition init_state :: stitch_state where
  "init_state = \<lparr>allSegments = [], totalDistance = Double 0 0, totalMinutes = Double 0 0,
     totalCost = Double 0 0, sequenceOffset = 0\<rparr>"

text \<open>
  The object pushed for one row. \<open>tc\<close> is \<open>totalCost\<close> after the leg has been added
  to it, \<open>lc\<close> the leg's cost, \<open>off\<close> the sequence offset before the leg;
  \<open>totalCost - legCost + row.agg_cost\<close> subtracts first and rounds twice.
  \<open>geometry\<close> keeps the GeoJSON text: ST_AsGeoJSON yields a well-formed document,
  whose parse is determined by the text.
\<close>

definition mkSegment :: "double \<Rightarrow> double \<Rightarrow> int \<Rightarrow> nat \<Rightarrow> row \<Rightarrow> segment" where
  "mkSegment tc lc off li r =
     \<lparr>sequence = off + seq r,
      seg_node = node r,
      seg_edge = edge r,
      seg_cost = cost r,
      costMinutes = cost_minutes r,
      accumulatedCost = fadd (fsub tc lc) (agg_cost r),
      geometry = geom r,
      seg_name = name r,
      seg_length = length_m r,
      roadType = road_type r,
      legIndex = li\<rparr>"

text \<open>One iteration of \<open>for (const leg of legs)\<close>.\<close>

definition stitchLeg :: "stitch_state \<Rightarrow> leg \<Rightarrow> stitch_state" where
  "stitchLeg st l =
     (let totalDistance' = fadd (totalDistance st) (legDistance l);
          totalMinutes' = fadd (totalMinutes st) (legMinutes l);
          totalCost' = fadd (totalCost st) (legCost l)
      in \<lparr>allSegments = allSegments st @
              map (mkSegment totalCost' (legCost l) (sequenceOffset st) (fromIndex l)) (rows l),
           totalDistance = totalDistance',
           totalMinutes = totalMinutes',
           totalCost = totalCost',
           sequenceOffset = sequenceOffset st + int (length (rows l))\<rparr>)"

fun stitchLegs :: "stitch_state \<Rightarrow> leg list \<Rightarrow> stitch_state" where
  "stitchLegs st [] = st"
| "stitchLegs st (l # ls) = stitchLegs (stitchLeg st l) ls"

text \<open>
  \<open>nodeIds\<close> and \<open>waypoints\<close> are variables of the enclosing handler.
  \<open>xs[i]\<close> past the end of an array is \<open>undefined\<close>; \<open>nth_opt\<close> reads an array
  whose elements may themselves be \<open>undefined\<close>.
\<close>

definition js_nth :: "'a list \<Rightarrow> nat \<Rightarrow> 'a option" where
  "js_nth xs i = (if i < length xs then Some (xs ! i) else None)"

definition nth_opt :: "'a option list \<Rightarrow> nat \<Rightarrow> 'a option" where
  "nth_opt xs i = (case js_nth xs i of None \<Rightarrow> None | Some v \<Rightarrow> v)"

definition resolveWaypoints :: "int option list \<Rightarrow> waypoint list \<Rightarrow> resolvedWaypoint list" where
  "resolveWaypoints nodeIds wps =
     map (\<lambda>(wp, idx). waypoint.extend wp \<lparr>wp_nodeId = nth_opt nodeIds (idx + 1)\<rparr>)
       (zip wps [0..<length wps])"

definition formatMultiLegRoute ::
  "int option list \<Rightarrow> waypoint list \<Rightarrow> leg list option \<Rightarrow> route_type \<Rightarrow> route option" where
  "formatMultiLegRoute nodeIds wps legsOpt rt =
     (case legsOpt of
        None \<Rightarrow> None
      | Some ls \<Rightarrow>
          if length ls = 0 then None
          else
            let st = stitchLegs init_state ls
            in Some \<lparr>routeType = rt,
                 startNode = nth_opt nodeIds 0,
                 endNode = nth_opt nodeIds (length nodeIds - 1),
                 route_waypoints = resolveWaypoints nodeIds wps,
                 route_totalCost = totalCost st,
                 route_totalDistance = totalDistance st,
                 route_totalMinutes = totalMinutes st,
                 estimatedDuration = fmul (totalMinutes st) (Double 60 0),
                 segments = allSegments st,
                 legs = map (\<lambda>l. \<lparr>leg_from = fromPoint l, leg_to = toPoint l,
                                    distance = legDistance l, minutes = legMinutes l\<rparr>) ls\<rparr>)"

subsection \<open>buildWhereClause\<close>

text \<open>
  The WHERE clause is the list of its conditions, joined by AND; the empty list is the
  empty string (no WHERE at all). Each condition is one of the three SQL templates of
  the source:
  \<^item> \<open>CostSIsNotNull\<close>: \<^verbatim>\<open>cost_s IS NOT NULL\<close>;
  \<^item> \<open>NotExistsTagValueIn vs\<close>: \<^verbatim>\<open>NOT EXISTS (SELECT 1 FROM configuration c
    WHERE c.tag_id = ways.tag_id AND c.tag_value IN (vs))\<close>;
  \<^item> \<open>NotIntersectsBuffer Geography lon lat r\<close>: \<^verbatim>\<open>NOT ST_Intersects(ways.the_geom,
    ST_Buffer(ST_SetSRID(ST_MakePoint(lon, lat), 4326)::geography, r)::geometry)\<close>.
  \<open>ST_Buffer\<close> takes its radius in metres on the ground when the point is cast to
  \<open>geography\<close>, as the template does, and in the units of the spatial reference,
  degrees for SRID 4326, when the point stays a \<open>geometry\<close>; the condition records
  which of the two it is.
\<close>

datatype buffer_type = Geography | Geometry

datatype condition =
    CostSIsNotNull
  | NotExistsTagValueIn "string list"
  | NotIntersectsBuffer buffer_type real real real

text \<open>\<open>x && x > limit\<close> on an optional number.\<close>

definition truthy_gt :: "real option \<Rightarrow> real \<Rightarrow> bool" where
  "truthy_gt x limit = (\<not> falsy x \<and> the x > limit)"

text \<open>
  The callback of \<open>avoidAreas.map\<close>. \<open>radiusDegrees\<close> is computed and not used:
  the buffer takes \<open>radiusMeters\<close>.
\<close>

definition areaCondition :: "area \<Rightarrow> condition" where
  "areaCondition a =
     (let radiusMeters = orElse (radius a) 500;
          radiusDegrees = radiusMeters / 111000
      in NotIntersectsBuffer Geography (area_lon a) (area_lat a) radiusMeters)"

text \<open>
  \<open>baseWhere\<close> is \<open>None\<close> for the empty string. The conditions of the avoid areas are
  pushed as one string, itself their join by AND, so the clause is the join of the
  flat list.
\<close>

definition buildWhereClause :: "request \<Rightarrow> condition option \<Rightarrow> condition list" where
  "buildWhereClause req baseWhere =
     (case baseWhere of None \<Rightarrow> [] | Some b \<Rightarrow> [b]) @
     (if avoidMotorways req
      then [NotExistsTagValueIn [''motorway'', ''motorway_link'']] else []) @
     (if truthy_gt (vehicleWidth req) 2.5
      then [NotExistsTagValueIn [''service'', ''residential'', ''living_street'', ''track'']]
      else []) @
     (if truthy_gt (vehicleHeight req) 3.5
      then [NotExistsTagValueIn [''tunnel'']] else []) @
     (if length (avoidAreas req) > 0 then map areaCondition (avoidAreas req) else [])"

subsection \<open>What a WHERE clause admits\<close>

text \<open>
  The columns of \<open>ways\<close> and \<open>configuration\<close> that the conditions read, and the
  two distances of PostGIS between a geometry and the point \<open>(lon, lat)\<close>, which are
  parameters: \<open>ground_distance\<close>, in metres on the ground, as the geography type
  measures it, and \<open>degree_distance\<close>, in degrees of the plane of longitude and
  latitude, as the geometry type measures it. A geometry intersects the buffer of
  radius \<open>r\<close> around a point when its distance to the point, in the buffer's
  measure, is at most \<open>r\<close>. A row of \<open>ways\<close> is admitted when every condition is
  true of it.
\<close>

record 'g way =
  gid :: int
  tag_id :: "int option"
  cost_s :: "real option"
  the_geom :: 'g

record 'g store =
  configuration :: "(int \<times> string) list"
  ground_distance :: "'g \<Rightarrow> real \<Rightarrow> real \<Rightarrow> real"
  degree_distance :: "'g \<Rightarrow> real \<Rightarrow> real \<Rightarrow> real"

definition tagged :: "('g, 'a) store_scheme \<Rightarrow> ('g, 'b) way_scheme \<Rightarrow> string \<Rightarrow> bool" where
  "tagged S w v = (\<exists>c\<in>set (configuration S). Some (fst c) = tag_id w \<and> snd c = v)"

fun holds :: "('g, 'a) store_scheme \<Rightarrow> ('g, 'b) way_scheme \<Rightarrow> condition \<Rightarrow> bool" where
  "holds S w CostSIsNotNull = (cost_s w \<noteq> None)"
| "holds S w (NotExistsTagValueIn vs) =
     (\<not> (\<exists>c\<in>set (configuration S). Some (fst c) = tag_id w \<and> snd c \<in> set vs))"
| "holds S w (NotIntersectsBuffer Geography lo la r) =
     (\<not> ground_distance S (the_geom w) lo la \<le> r)"
| "holds S w (NotIntersectsBuffer Geometry lo la r) =
     (\<not> degree_distance S (the_geom w) lo la \<le> r)"

definition admits :: "('g, 'a) store_scheme \<Rightarrow> condition list \<Rightarrow> ('g, 'b) way_scheme \<Rightarrow> bool" where
  "admits S cs w = list_all (holds S w) cs"

subsection \<open>The two route queries\<close>

datatype cost_column = LengthM | CostS

record route_query =
  costColumn :: cost_column
  whereClause :: "condition list"

definition shortestRouteQuery :: "request \<Rightarrow> route_query" where
  "shortestRouteQuery req = \<lparr>costColumn = LengthM, whereClause = buildWhereClause req None\<rparr>"

definition fastestRouteQuery :: "request \<Rightarrow> route_query" where
  "fastestRouteQuery req =
     \<lparr>costColumn = CostS, whereClause = buildWhereClause req (Some CostSIsNotNull)\<rparr>"

subsection \<open>The database and the queries sent to it\<close>

datatype db_error = QueryFailed

record db =
  nearestNodeQuery :: "real option \<Rightarrow> real option \<Rightarrow> db_error + int list"
  pgr_dijkstra :: "route_query \<Rightarrow> int option \<Rightarrow> int option \<Rightarrow> db_error + row list"

datatype query =
    NearestNode "real option" "real option"
  | Dijkstra route_query "int option" "int option"


text \<open>\<open>Promise.all\<close>: the values in order, or the first rejection.\<close>

fun promiseAll :: "('e + 'a) list \<Rightarrow> 'e + 'a list" where
  "promiseAll [] = Inr []"
| "promiseAll (Inl e # rs) = Inl e"
| "promiseAll (Inr v # rs) = (case promiseAll rs of Inl e \<Rightarrow> Inl e | Inr vs \<Rightarrow> Inr (v # vs))"

subsection \<open>Resolving the points\<close>

definition allPoints :: "request \<Rightarrow> point list" where
  "allPoints req =
     [\<lparr>lat = startLat req, lon = startLon req, ptype = Start\<rparr>] @
     map (\<lambda>(wp, idx). \<lparr>lat = wp_lat wp, lon = wp_lon wp, ptype = Waypoint idx\<rparr>)
       (zip (waypoints req) [0..<length (waypoints req)]) @
     [\<lparr>lat = endLat req, lon = endLon req, ptype = End\<rparr>]"

text \<open>
  \<open>pool.query(nearestNodeQuery, [point.lon, point.lat]).then(...)\<close>: the rows are
  the ids found (at most one, by LIMIT 1); \<open>nodeResultOf\<close> is the callback of
  \<open>then\<close>.
\<close>

definition nodeResultOf :: "point \<Rightarrow> int list \<Rightarrow> nodeResult" where
  "nodeResultOf p ids =
     point.extend p
       \<lparr>nodeId = (case ids of [] \<Rightarrow> None | i # _ \<Rightarrow> Some i),
        found = (length ids > 0)\<rparr>"

definition resolvePoint :: "db \<Rightarrow> point \<Rightarrow> db_error + nodeResult" where
  "resolvePoint d p =
     (case nearestNodeQuery d (lon p) (lat p) of
        Inl e \<Rightarrow> Inl e
      | Inr ids \<Rightarrow> Inr (nodeResultOf p ids))"

subsection \<open>calculateMultiLegRoute\<close>

text \<open>\<open>routeType === 'shortest' ? shortestRouteQuery : fastestRouteQuery\<close>\<close>

definition queryOf :: "request \<Rightarrow> route_type \<Rightarrow> route_query" where
  "queryOf req rt = (if rt = Shortest then shortestRouteQuery req else fastestRouteQuery req)"

definition calculateLegRoute ::
  "db \<Rightarrow> request \<Rightarrow> route_type \<Rightarrow> int option \<Rightarrow> int option \<Rightarrow> db_error + row list" where
  "calculateLegRoute d req rt fromNodeId toNodeId =
     (let query = queryOf req rt in pgr_dijkstra d query fromNodeId toNodeId)"

text \<open>
  The loop \<open>for (let i = 0; i < nodeIds.length - 1; i++)\<close>, from \<open>i\<close> on, with the
  legs pushed so far. It returns what the function returns (a rejection, \<open>null\<close>, or
  the legs) and the queries it sent.
\<close>

function legLoop ::
  "db \<Rightarrow> request \<Rightarrow> route_type \<Rightarrow> int option list \<Rightarrow> point list \<Rightarrow> nat \<Rightarrow> leg list \<Rightarrow>
     (db_error + leg list option) \<times> query list" where
  "legLoop d req rt nodeIds pts i allLegs =
     (if i < length nodeIds - 1 then
        (let fromNode = nth_opt nodeIds i;
             toNode = nth_opt nodeIds (i + 1)
         in case calculateLegRoute d req rt fromNode toNode of
              Inl e \<Rightarrow> (Inl e, [Dijkstra (queryOf req rt) fromNode toNode])
            | Inr legRows \<Rightarrow>
                if length legRows = 0
                then (Inr None, [Dijkstra (queryOf req rt) fromNode toNode])
                else
                  (let r = legLoop d req rt nodeIds pts (i + 1)
                             (allLegs @ [\<lparr>fromIndex = i, toIndex = i + 1,
                                          fromPoint = js_nth pts i,
                                          toPoint = js_nth pts (i + 1),
                                          rows = legRows\<rparr>])
                   in (fst r, Dijkstra (queryOf req rt) fromNode toNode # snd r)))
      else (Inr (Some allLegs), []))"
  by pat_completeness auto
termination
  by (relation "measure (\<lambda>(d, req, rt, nodeIds, pts, i, allLegs). length nodeIds - 1 - i)") auto

definition calculateMultiLegRoute ::
  "db \<Rightarrow> request \<Rightarrow> route_type \<Rightarrow> int option list \<Rightarrow> point list \<Rightarrow>
     (db_error + leg list option) \<times> query list" where
  "calculateMultiLegRoute d req rt nodeIds pts = legLoop d req rt nodeIds pts 0 []"

subsection \<open>The handler\<close>

record constraints =
  c_avoidMotorways :: bool
  c_vehicleWidth :: "real option"
  c_vehicleHeight :: "real option"
  c_avoidAreas :: nat

record routeResult =
  shortest :: "route option"
  fastest :: "route option"
  routes :: "route list"
  r_waypoints :: "waypoint list"
  r_avoidAreas :: "area list"
  r_constraints :: constraints

datatype response =
    BadRequest
  | NodesNotFound "point_type list"
  | RouteNotFound
  | Ok routeResult
  | InternalError

fun status :: "response \<Rightarrow> nat" where
  "status BadRequest = 400"
| "status (NodesNotFound missingPoints) = 404"
| "status RouteNotFound = 404"
| "status (Ok r) = 200"
| "status InternalError = 500"

text \<open>
  The part of the handler after the points are resolved. The two pipelines run
  concurrently; the log lists the queries of the distance pipeline before those of the
  time pipeline. A rejection of either is caught and answered with 500.
\<close>

definition searchRoutes :: "db \<Rightarrow> request \<Rightarrow> nodeResult list \<Rightarrow> response \<times> query list" where
  "searchRoutes d req nodeResults =
     (let nodeIds = map nodeId nodeResults;
          s = calculateMultiLegRoute d req Shortest nodeIds (allPoints req);
          f = calculateMultiLegRoute d req Fastest nodeIds (allPoints req);
          log = snd s @ snd f
      in case (fst s, fst f) of
           (Inl e, _) \<Rightarrow> (InternalError, log)
         | (Inr shortestLegs, Inl e) \<Rightarrow> (InternalError, log)
         | (Inr shortestLegs, Inr fastestLegs) \<Rightarrow>
             if shortestLegs = None \<and> fastestLegs = None then (RouteNotFound, log)
             else
               (let sr = formatMultiLegRoute nodeIds (waypoints req) shortestLegs Shortest;
                    fr = formatMultiLegRoute nodeIds (waypoints req) fastestLegs Fastest
                in (Ok \<lparr>shortest = sr,
                        fastest = fr,
                        routes = map the (filter (\<lambda>r. r \<noteq> None) [sr, fr]),
                        r_waypoints = waypoints req,
                        r_avoidAreas = avoidAreas req,
                        r_constraints =
                          \<lparr>c_avoidMotorways = avoidMotorways req,
                           c_vehicleWidth = vehicleWidth req,
                           c_vehicleHeight = vehicleHeight req,
                           c_avoidAreas = length (avoidAreas req)\<rparr>\<rparr>, log)))"

definition POST :: "db \<Rightarrow> request \<Rightarrow> response \<times> query list" where
  "POST d req =
     (if falsy (startLat req) \<or> falsy (startLon req) \<or> falsy (endLat req) \<or> falsy (endLon req)
      then (BadRequest, [])
      else
        (let log = map (\<lambda>p. NearestNode (lon p) (lat p)) (allPoints req)
         in case promiseAll (map (resolvePoint d) (allPoints req)) of
              Inl e \<Rightarrow> (InternalError, log)
            | Inr nodeResults \<Rightarrow>
                (let missingNodes = filter (\<lambda>n. \<not> found n) nodeResults
                 in if length missingNodes > 0
                    then (NodesNotFound (map ptype missingNodes), log)
                    else (let r = searchRoutes d req nodeResults
                          in (fst r, log @ snd r)))))"

subsection \<open>The node result of a point whose query returns\<close>

definition resolved :: "db \<Rightarrow> point \<Rightarrow> nodeResult" where
  "resolved d p = nodeResultOf p (projr (nearestNodeQuery d (lon p) (lat p)))"

subsection \<open>The radius of an avoid area, in the words of the specification\<close>

text \<open>
  The specification gives an avoid zone the radius it carries and the radius 500 when
  it carries none. \<open>areaCondition\<close> is compared with this reading below.
\<close>

definition spec_radiusMeters :: "area \<Rightarrow> real" where
  "spec_radiusMeters a = (case radius a of None \<Rightarrow> 500 | Some r \<Rightarrow> r)"

subsection \<open>Sample data\<close>

text \<open>Two legs of two rows each, as pgr_dijkstra numbers them (from 1).\<close>

definition cost_row :: "int \<Rightarrow> double \<Rightarrow> row" where
  "cost_row i c = \<lparr>seq = i, path_seq = i, node = 100 + i, edge = 200 + i, cost = Double 1 0,
     agg_cost = c, geom = None, name = None, length_m = Some (Double 1000 0),
     cost_minutes = Some (Double 2 0), road_type = Some ''primary''\<rparr>"

definition demo_row :: "int \<Rightarrow> int \<Rightarrow> row" where
  "demo_row i c = cost_row i (Double c 0)"

text \<open>
  The doubles 0.3 and 0.6, and two legs whose aggregate costs end at them.
\<close>

definition double_0_3 :: double where
  "double_0_3 = Double 5404319552844595 (- 54)"

definition double_0_6 :: double where
  "double_0_6 = Double 5404319552844595 (- 53)"

definition rounding_legs :: "leg list" where
  "rounding_legs =
     [\<lparr>fromIndex = 0, toIndex = 1, fromPoint = None, toPoint = None,
        rows = [cost_row 1 (Double 0 0), cost_row 2 double_0_3]\<rparr>,
      \<lparr>fromIndex = 1, toIndex = 2, fromPoint = None, toPoint = None,
        rows = [cost_row 1 (Double 0 0), cost_row 2 double_0_6]\<rparr>]"

definition demo_legs :: "leg list" where
  "demo_legs =
     [\<lparr>fromIndex = 0, toIndex = 1, fromPoint = None, toPoint = None,
        rows = [demo_row 1 0, demo_row 2 3]\<rparr>,
      \<lparr>fromIndex = 1, toIndex = 2, fromPoint = None, toPoint = None,
        rows = [demo_row 1 0, demo_row 2 5]\<rparr>]"

definition demo_request :: request where
  "demo_request =
     \<lparr>startLat = Some 33, startLon = Some 133, endLat = Some 34, endLon = Some 134,
      waypoints = [\<lparr>wp_lat = Some 33.5, wp_lon = Some 133.5\<rparr>],
      avoidMotorways = True, vehicleWidth = Some 3, vehicleHeight = None,
      avoidAreas = [\<lparr>area_lat = 33.2, area_lon = 133.2, radius = None\<rparr>]\<rparr>"

definition plain_request :: request where
  "plain_request =
     \<lparr>startLat = Some 33, startLon = Some 133, endLat = Some 34, endLon = Some 134,
      waypoints = [], avoidMotorways = False, vehicleWidth = None, vehicleHeight = None,
      avoidAreas = []\<rparr>"


definition zero_radius_area :: area where
  "zero_radius_area = \<lparr>area_lat = 33.2, area_lon = 133.2, radius = Some 0\<rparr>"

definition demo_db :: db where
  "demo_db =
     \<lparr>nearestNodeQuery = (\<lambda>lo la. if la = Some 99 then Inr [] else Inr [7]),
      pgr_dijkstra = (\<lambda>q a b. if costColumn q = CostS then Inr []
                               else Inr [demo_row 1 0, demo_row 2 3])\<rparr>"

definition island_db :: db where
  "island_db =
     \<lparr>nearestNodeQuery = (\<lambda>lo la. Inr [7]),
      pgr_dijkstra = (\<lambda>q a b. if b = Some 9 then Inr []
                               else Inr [demo_row 1 0, demo_row 2 3])\<rparr>"

text \<open>
  A store for the examples: the ways are points on the parallel of latitude 60, given by
  their longitude, where a degree of longitude is 55500 metres on the ground.
\<close>

definition demo_store :: "real store" where
  "demo_store =
     \<lparr>configuration = [(1, ''motorway''), (2, ''residential''), (3, ''primary'')],
      ground_distance = (\<lambda>g lo la. 55500 * \<bar>g - lo\<bar>),
      degree_distance = (\<lambda>g lo la. \<bar>g - lo\<bar>)\<rparr>"

definition demo_way :: "real way" where
  "demo_way = \<lparr>gid = 10, tag_id = Some 3, cost_s = None, the_geom = 133.9\<rparr>"

definition motorway_way :: "real way" where
  "motorway_way = \<lparr>gid = 11, tag_id = Some 1, cost_s = Some 60, the_geom = 133.9\<rparr>"

definition near_way :: "real way" where
  "near_way = \<lparr>gid = 12, tag_id = Some 3, cost_s = Some 30, the_geom = 133.206\<rparr>"

section \<open>Properties\<close>

subsection \<open>Stitching: auxiliary facts\<close>

lemma sequence_mkSegment: "sequence (mkSegment tc lc off li r) = off + seq r"
  by (simp add: mkSegment_def)

lemma sequence_stitchLeg:
  "map sequence (allSegments (stitchLeg st l)) =
     map sequence (allSegments st) @ map (\<lambda>r. sequenceOffset st + seq r) (rows l)"
  by (simp add: stitchLeg_def Let_def sequence_mkSegment comp_def)

lemma sequenceOffset_stitchLeg:
  "sequenceOffset (stitchLeg st l) = sequenceOffset st + int (length (rows l))"
  by (simp add: stitchLeg_def Let_def)

lemma concat_map_upt_Suc:
  "concat (map f [0..<Suc n]) = f 0 @ concat (map (\<lambda>k. f (Suc k)) [0..<n])"
proof -
  have "[0..<Suc n] = 0 # map Suc [0..<n]"
    by (simp add: upt_conv_Cons map_Suc_upt del: upt_Suc)
  then show ?thesis by (simp add: comp_def del: upt_Suc)
qed

lemma sequence_stitchLegs:
  "map sequence (allSegments (stitchLegs st ls)) =
     map sequence (allSegments st) @
     concat (map (\<lambda>k. map (\<lambda>r. sequenceOffset st + int (sum_list (map (\<lambda>l. length (rows l)) (take k ls))) + seq r)
                          (rows (ls ! k))) [0..<length ls])"
proof (induction ls arbitrary: st)
  case Nil
  show ?case by simp
next
  case (Cons l ls)
  show ?case
    by (simp add: Cons.IH sequence_stitchLeg sequenceOffset_stitchLeg concat_map_upt_Suc
        add.assoc del: upt_Suc)
qed

lemma map_add_upto: "map (\<lambda>k. d + k) [a..b] = [d + a..d + b]"
proof (induction a b rule: upto.induct)
  case (1 i j)
  show ?case
  proof (cases "i \<le> j")
    case True
    then have "[i..j] = i # [i + 1..j]" "[d + i..d + j] = (d + i) # [d + i + 1..d + j]"
      by (simp_all add: upto_rec1)
    with 1 True show ?thesis by (simp add: add.assoc)
  next
    case False
    then show ?thesis by simp
  qed
qed

lemma stitchLeg_contiguous:
  assumes "map sequence (allSegments st) = [s..s + sequenceOffset st - 1]"
    and "0 \<le> sequenceOffset st"
    and "map seq (rows l) = [s..s + int (length (rows l)) - 1]"
  shows "map sequence (allSegments (stitchLeg st l)) = [s..s + sequenceOffset (stitchLeg st l) - 1]"
proof -
  let ?off = "sequenceOffset st" and ?n = "int (length (rows l))"
  have "map (\<lambda>r. ?off + seq r) (rows l) = map (\<lambda>k. ?off + k) (map seq (rows l))"
    by (simp add: comp_def)
  also have "\<dots> = [?off + s..?off + (s + ?n - 1)]"
    unfolding assms(3) by (rule map_add_upto)
  finally have new: "map (\<lambda>r. ?off + seq r) (rows l) = [s + ?off..s + ?off + ?n - 1]"
    by (simp add: algebra_simps)
  have "[s..s + (?off + ?n) - 1] = [s..s + ?off - 1] @ [s + ?off..s + (?off + ?n) - 1]"
  proof (cases "rows l = []")
    case True
    then show ?thesis by simp
  next
    case False
    then have "0 < ?n" by simp
    with assms(2) show ?thesis by (intro upto_split1) simp_all
  qed
  then show ?thesis
    unfolding sequence_stitchLeg sequenceOffset_stitchLeg assms(1) new
    by (simp add: algebra_simps)
qed

lemma stitchLegs_contiguous:
  assumes "map sequence (allSegments st) = [s..s + sequenceOffset st - 1]"
    and "0 \<le> sequenceOffset st"
    and "\<forall>l\<in>set ls. map seq (rows l) = [s..s + int (length (rows l)) - 1]"
  shows "map sequence (allSegments (stitchLegs st ls)) =
           [s..s + sequenceOffset (stitchLegs st ls) - 1] \<and> 0 \<le> sequenceOffset (stitchLegs st ls)"
  using assms
proof (induction ls arbitrary: st)
  case Nil
  then show ?case by simp
next
  case (Cons l ls)
  from Cons.prems have l: "map seq (rows l) = [s..s + int (length (rows l)) - 1]"
    and rest: "\<forall>l\<in>set ls. map seq (rows l) = [s..s + int (length (rows l)) - 1]" by simp_all
  have nonneg: "0 \<le> sequenceOffset (stitchLeg st l)"
    using Cons.prems(2) by (simp add: sequenceOffset_stitchLeg)
  show ?case
    unfolding stitchLegs.simps
    by (rule Cons.IH [OF stitchLeg_contiguous [OF Cons.prems(1,2) l] nonneg rest])
qed

subsection \<open>Resolution and the leg loop: auxiliary facts\<close>

lemma promiseAll_length: "promiseAll rs = Inr vs \<Longrightarrow> length vs = length rs"
proof (induction rs arbitrary: vs rule: promiseAll.induct)
  case 1
  then show ?case by simp
next
  case (2 e rs)
  then show ?case by simp
next
  case (3 v rs)
  then show ?case by (auto split: sum.splits)
qed

lemma promiseAll_map_Inr: "promiseAll (map (\<lambda>x. Inr (f x)) xs) = Inr (map f xs)"
  by (induction xs) simp_all

lemma length_allPoints: "length (allPoints req) = length (waypoints req) + 2"
  by (simp add: allPoints_def)




lemma legLoop_done:
  "\<not> i < length nodeIds - 1 \<Longrightarrow> legLoop d req rt nodeIds pts i acc = (Inr (Some acc), [])"
  by simp

lemma legLoop_reject:
  "i < length nodeIds - 1 \<Longrightarrow>
   calculateLegRoute d req rt (nth_opt nodeIds i) (nth_opt nodeIds (i + 1)) = Inl e \<Longrightarrow>
   legLoop d req rt nodeIds pts i acc =
     (Inl e, [Dijkstra (queryOf req rt) (nth_opt nodeIds i) (nth_opt nodeIds (i + 1))])"
  by (simp add: Let_def)

lemma legLoop_empty:
  "i < length nodeIds - 1 \<Longrightarrow>
   calculateLegRoute d req rt (nth_opt nodeIds i) (nth_opt nodeIds (i + 1)) = Inr [] \<Longrightarrow>
   legLoop d req rt nodeIds pts i acc =
     (Inr None, [Dijkstra (queryOf req rt) (nth_opt nodeIds i) (nth_opt nodeIds (i + 1))])"
  by (simp add: Let_def)

lemma legLoop_step:
  "i < length nodeIds - 1 \<Longrightarrow>
   calculateLegRoute d req rt (nth_opt nodeIds i) (nth_opt nodeIds (i + 1)) = Inr rs \<Longrightarrow>
   rs \<noteq> [] \<Longrightarrow>
   legLoop d req rt nodeIds pts i acc =
     (fst (legLoop d req rt nodeIds pts (i + 1)
        (acc @ [\<lparr>fromIndex = i, toIndex = i + 1, fromPoint = js_nth pts i,
                 toPoint = js_nth pts (i + 1), rows = rs\<rparr>])),
      Dijkstra (queryOf req rt) (nth_opt nodeIds i) (nth_opt nodeIds (i + 1)) #
      snd (legLoop d req rt nodeIds pts (i + 1)
        (acc @ [\<lparr>fromIndex = i, toIndex = i + 1, fromPoint = js_nth pts i,
                 toPoint = js_nth pts (i + 1), rows = rs\<rparr>])))"
  by (simp add: Let_def)

lemma legLoop_length:
  "fst (legLoop d req rt nodeIds pts i acc) = Inr (Some ls) \<Longrightarrow>
     length ls = length acc + (length nodeIds - 1 - i)"
proof (induction "length nodeIds - 1 - i" arbitrary: i acc)
  case 0
  then show ?case by (simp add: legLoop_done del: legLoop.simps)
next
  case (Suc n)
  then have lt: "i < length nodeIds - 1" by simp
  show ?case
  proof (cases "calculateLegRoute d req rt (nth_opt nodeIds i) (nth_opt nodeIds (i + 1))")
    case (Inl e)
    with lt Suc.prems show ?thesis by (simp add: legLoop_reject del: legLoop.simps)
  next
    case (Inr rs)
    show ?thesis
    proof (cases "rs = []")
      case True
      with lt Inr Suc.prems show ?thesis by (simp add: legLoop_empty del: legLoop.simps)
    next
      case False
      from Suc.hyps(2) have n: "n = length nodeIds - 1 - (i + 1)" by simp
      from Suc.prems have "fst (legLoop d req rt nodeIds pts (i + 1)
          (acc @ [\<lparr>fromIndex = i, toIndex = i + 1, fromPoint = js_nth pts i,
                   toPoint = js_nth pts (i + 1), rows = rs\<rparr>])) = Inr (Some ls)"
        by (simp add: legLoop_step [OF lt Inr False] del: legLoop.simps)
      from Suc.hyps(1) [OF n this] lt show ?thesis by simp
    qed
  qed
qed

lemma all_from_split:
  "i < N \<Longrightarrow> (\<forall>j. i \<le> j \<and> j < N \<longrightarrow> P j) \<longleftrightarrow> P i \<and> (\<forall>j. i + 1 \<le> j \<and> j < (N::nat) \<longrightarrow> P j)"
proof (intro iffI conjI allI impI)
  assume "i < N" "\<forall>j. i \<le> j \<and> j < N \<longrightarrow> P j"
  then show "P i" by simp
next
  fix j assume "\<forall>j. i \<le> j \<and> j < N \<longrightarrow> P j" "i + 1 \<le> j \<and> j < N"
  then show "P j" by simp
next
  fix j assume a: "P i \<and> (\<forall>j. i + 1 \<le> j \<and> j < N \<longrightarrow> P j)" "i \<le> j \<and> j < N"
  show "P j"
  proof (cases "j = i")
    case True
    with a show ?thesis by simp
  next
    case False
    with a(2) have "i + 1 \<le> j \<and> j < N" by simp
    with a(1) show ?thesis by blast
  qed
qed

lemma legLoop_Some_iff:
  "(\<exists>ls. fst (legLoop d req rt nodeIds pts i acc) = Inr (Some ls)) \<longleftrightarrow>
   (\<forall>j. i \<le> j \<and> j < length nodeIds - 1 \<longrightarrow>
      (\<exists>rs. calculateLegRoute d req rt (nth_opt nodeIds j) (nth_opt nodeIds (j + 1)) = Inr rs \<and> rs \<noteq> []))"
proof (induction "length nodeIds - 1 - i" arbitrary: i acc)
  case 0
  then have nlt: "\<not> i < length nodeIds - 1" by simp
  then have range: "i \<le> j \<Longrightarrow> j < length nodeIds - 1 \<Longrightarrow> False" for j by arith
  show ?case unfolding legLoop_done [OF nlt] using range by auto
next
  case (Suc n)
  then have lt: "i < length nodeIds - 1" by simp
  let ?leg = "\<lambda>j. calculateLegRoute d req rt (nth_opt nodeIds j) (nth_opt nodeIds (j + 1))"
  note split = all_from_split [OF lt]
  show ?case
  proof (cases "?leg i")
    case (Inl e)
    with lt show ?thesis
      by (subst split) (simp add: legLoop_reject del: legLoop.simps)
  next
    case (Inr rs)
    show ?thesis
    proof (cases "rs = []")
      case True
      with lt Inr show ?thesis
        by (subst split) (simp add: legLoop_empty del: legLoop.simps)
    next
      case False
      from Suc.hyps(2) have n: "n = length nodeIds - 1 - (i + 1)" by simp
      let ?acc = "acc @ [\<lparr>fromIndex = i, toIndex = i + 1, fromPoint = js_nth pts i,
                   toPoint = js_nth pts (i + 1), rows = rs\<rparr>]"
      have eq: "fst (legLoop d req rt nodeIds pts i acc) = fst (legLoop d req rt nodeIds pts (i + 1) ?acc)"
        by (subst legLoop_step [OF lt Inr False]) (rule fst_conv)
      have here: "\<exists>rs. ?leg i = Inr rs \<and> rs \<noteq> []" using Inr False by simp
      show ?thesis
        unfolding eq Suc.hyps(1) [OF n, of ?acc] split using here by blast
    qed
  qed
qed

lemma legLoop_None_iff:
  "fst (legLoop d req rt nodeIds pts i acc) = Inr None \<longleftrightarrow>
   (\<exists>j. i \<le> j \<and> j < length nodeIds - 1 \<and>
      calculateLegRoute d req rt (nth_opt nodeIds j) (nth_opt nodeIds (j + 1)) = Inr [] \<and>
      (\<forall>k. i \<le> k \<and> k < j \<longrightarrow>
         (\<exists>rs. calculateLegRoute d req rt (nth_opt nodeIds k) (nth_opt nodeIds (k + 1)) = Inr rs \<and> rs \<noteq> [])))"
  (is "?L i acc \<longleftrightarrow> ?R i")
proof (induction "length nodeIds - 1 - i" arbitrary: i acc)
  case 0
  then have nlt: "\<not> i < length nodeIds - 1" by simp
  then have range: "i \<le> j \<Longrightarrow> j < length nodeIds - 1 \<Longrightarrow> False" for j by arith
  show ?case unfolding legLoop_done [OF nlt] using range by auto
next
  case (Suc n)
  then have lt: "i < length nodeIds - 1" by simp
  let ?leg = "\<lambda>j. calculateLegRoute d req rt (nth_opt nodeIds j) (nth_opt nodeIds (j + 1))"
  let ?good = "\<lambda>k. \<exists>rs. ?leg k = Inr rs \<and> rs \<noteq> []"
  show ?case
  proof (cases "?leg i")
    case (Inl e)
    have "\<not> ?R i"
    proof
      assume "?R i"
      then obtain j where j: "i \<le> j" "?leg j = Inr []" "\<forall>k. i \<le> k \<and> k < j \<longrightarrow> ?good k"
        by blast
      show False
      proof (cases "j = i")
        case True
        with j(2) Inl show False by simp
      next
        case False
        with j(1) have "i < j" by simp
        with j(3) have "?good i" by blast
        with Inl show False by simp
      qed
    qed
    with lt Inl show ?thesis by (simp add: legLoop_reject del: legLoop.simps)
  next
    case (Inr rs)
    show ?thesis
    proof (cases "rs = []")
      case True
      with lt Inr have "?R i" by (intro exI [of _ i]) auto
      with lt Inr True show ?thesis by (simp add: legLoop_empty del: legLoop.simps)
    next
      case False
      from Suc.hyps(2) have n: "n = length nodeIds - 1 - (i + 1)" by simp
      have good: "?good i" using Inr False by simp
      have "?R i \<longleftrightarrow> ?R (i + 1)"
      proof
        assume "?R i"
        then obtain j where j: "i \<le> j" "j < length nodeIds - 1" "?leg j = Inr []"
          "\<forall>k. i \<le> k \<and> k < j \<longrightarrow> ?good k" by blast
        from j(3) Inr False have "j \<noteq> i" by auto
        with j(1) have "i + 1 \<le> j" by simp
        moreover from j(4) have "\<forall>k. i + 1 \<le> k \<and> k < j \<longrightarrow> ?good k" by simp
        ultimately show "?R (i + 1)" using j(2,3) by blast
      next
        assume "?R (i + 1)"
        then obtain j where j: "i + 1 \<le> j" "j < length nodeIds - 1" "?leg j = Inr []"
          "\<forall>k. i + 1 \<le> k \<and> k < j \<longrightarrow> ?good k" by blast
        have "\<forall>k. i \<le> k \<and> k < j \<longrightarrow> ?good k"
        proof (intro allI impI)
          fix k assume k: "i \<le> k \<and> k < j"
          show "?good k"
          proof (cases "k = i")
            case True
            with good show ?thesis by simp
          next
            case False
            with k have "i + 1 \<le> k \<and> k < j" by simp
            with j(4) show ?thesis by blast
          qed
        qed
        moreover from j(1) have "i \<le> j" by simp
        ultimately show "?R i" using j(2,3) by blast
      qed
      moreover have "fst (legLoop d req rt nodeIds pts i acc) =
          fst (legLoop d req rt nodeIds pts (i + 1)
            (acc @ [\<lparr>fromIndex = i, toIndex = i + 1, fromPoint = js_nth pts i,
                     toPoint = js_nth pts (i + 1), rows = rs\<rparr>]))"
        by (subst legLoop_step [OF lt Inr False]) (rule fst_conv)
      ultimately show ?thesis
        using Suc.hyps(1) [OF n] by simp
    qed
  qed
qed

subsection \<open>The stitched route\<close>

text \<open>
  Claim C1 fails on the handler. The two legs of \<open>rounding_legs\<close> are non-empty and
  their aggregate costs are non-negative and non-decreasing within each leg, 0 to 0.3
  and 0 to 0.6. The stitched route is produced, and its accumulated costs are 0, 0.3,
  then 0.29999999999999993 and 0.8999999999999999: the first segment of the second leg
  lies below the last segment of the first, and its cost is not the final cost 0.3 of
  the previous leg plus its own 0. The sum 0.3 + 0.6 is rounded when \<open>totalCost\<close> is
  updated, and \<open>totalCost - legCost\<close> does not give 0.3 back.
\<close>

theorem stitched_cost_rounding:
  "rounding_legs \<noteq> [] \<and>
   list_all (\<lambda>l. rows l \<noteq> [] \<and> sorted (map (\<lambda>r. dval (agg_cost r)) (rows l)) \<and>
                  0 \<le> dval (agg_cost (hd (rows l)))) rounding_legs \<and>
   dval double_0_3 = 5404319552844595 / 2 ^ 54 \<and>
   (\<exists>v. formatMultiLegRoute [Some 1, Some 2, Some 3] [] (Some rounding_legs) Shortest = Some v \<and>
        map (\<lambda>s. dval (accumulatedCost s)) (segments v) =
          [0, 5404319552844595 / 2 ^ 54, 5404319552844594 / 2 ^ 54,
           8106479329266892 / 2 ^ 53] \<and>
        \<not> sorted (map (\<lambda>s. dval (accumulatedCost s)) (segments v)))"
proof -
  have legs: "rounding_legs \<noteq> []" by (simp add: rounding_legs_def)
  have ok: "list_all (\<lambda>l. rows l \<noteq> [] \<and> sorted (map (\<lambda>r. dval (agg_cost r)) (rows l)) \<and>
                  0 \<le> dval (agg_cost (hd (rows l)))) rounding_legs"
    by (simp add: rounding_legs_def cost_row_def dval_def double_0_3_def double_0_6_def)
  have d: "dval double_0_3 = 5404319552844595 / 2 ^ 54"
    by (simp add: dval_def double_0_3_def)
  have c1: "legCost (rounding_legs ! 0) = double_0_3" "legCost (rounding_legs ! 1) = double_0_6"
    by (simp_all add: legCost_def orElse_d_def rounding_legs_def cost_row_def double_0_3_def
        double_0_6_def)
  have t1: "fadd (Double 0 0) double_0_3 = Double 5404319552844595 (- 54)"
    by code_simp
  have t2: "fadd (Double 5404319552844595 (- 54)) double_0_6 = Double 8106479329266892 (- 53)"
    by code_simp
  have a1: "fadd (fsub (Double 5404319552844595 (- 54)) double_0_3) (Double 0 0) = Double 0 (- 54)"
    by code_simp
  have a2: "fadd (fsub (Double 5404319552844595 (- 54)) double_0_3) double_0_3 =
      Double 5404319552844595 (- 54)"
    by code_simp
  have a3: "fadd (fsub (Double 8106479329266892 (- 53)) double_0_6) (Double 0 0) =
      Double 2702159776422297 (- 53)"
    by code_simp
  have a4: "fadd (fsub (Double 8106479329266892 (- 53)) double_0_6) double_0_6 =
      Double 8106479329266892 (- 53)"
    by code_simp
  let ?st = "stitchLegs init_state rounding_legs"
  have segs: "map accumulatedCost (allSegments ?st) =
      [Double 0 (- 54), Double 5404319552844595 (- 54), Double 2702159776422297 (- 53),
       Double 8106479329266892 (- 53)]"
    using c1
    by (simp add: rounding_legs_def stitchLeg_def Let_def init_state_def mkSegment_def
        cost_row_def t1 t2 a1 a2 a3 a4)
  have vals: "map (\<lambda>s. dval (accumulatedCost s)) (allSegments ?st) =
      [0, 5404319552844595 / 2 ^ 54, 5404319552844594 / 2 ^ 54, 8106479329266892 / 2 ^ 53]"
  proof -
    have "map (\<lambda>s. dval (accumulatedCost s)) (allSegments ?st) =
        map dval (map accumulatedCost (allSegments ?st))"
      by (simp add: comp_def)
    also have "\<dots> = [0, 5404319552844595 / 2 ^ 54, 5404319552844594 / 2 ^ 54,
        8106479329266892 / 2 ^ 53]"
      unfolding segs by (simp add: dval_def)
    finally show ?thesis .
  qed
  have v: "formatMultiLegRoute [Some 1, Some 2, Some 3] [] (Some rounding_legs) Shortest \<noteq> None"
    using legs by (simp add: formatMultiLegRoute_def Let_def)
  then obtain v where v: "formatMultiLegRoute [Some 1, Some 2, Some 3] [] (Some rounding_legs)
      Shortest = Some v" by blast
  with legs have sv: "segments v = allSegments ?st"
    by (auto simp add: formatMultiLegRoute_def Let_def)
  have vals': "map (\<lambda>s. dval (accumulatedCost s)) (segments v) =
      [0, 5404319552844595 / 2 ^ 54, 5404319552844594 / 2 ^ 54, 8106479329266892 / 2 ^ 53]"
    unfolding sv by (rule vals)
  have ns: "\<not> sorted (map (\<lambda>s. dval (accumulatedCost s)) (segments v))"
    unfolding vals' by simp
  have ex: "\<exists>v. formatMultiLegRoute [Some 1, Some 2, Some 3] [] (Some rounding_legs) Shortest = Some v \<and>
        map (\<lambda>s. dval (accumulatedCost s)) (segments v) =
          [0, 5404319552844595 / 2 ^ 54, 5404319552844594 / 2 ^ 54,
           8106479329266892 / 2 ^ 53] \<and>
        \<not> sorted (map (\<lambda>s. dval (accumulatedCost s)) (segments v))"
    by (rule exI [of _ v]) (rule conjI [OF v conjI [OF vals' ns]])
  show ?thesis by (rule conjI [OF legs conjI [OF ok conjI [OF d ex]]])
qed

text \<open>
  Claim C2. The sequence of every stitched segment is the number of rows of all
  previous legs plus the row's own \<open>seq\<close>; when every leg numbers its rows
  contiguously from the same start \<open>s\<close>, the stitched sequences are the contiguous
  run \<open>s, s + 1, \<dots>\<close> over the whole segment list.
\<close>

theorem stitched_sequence_contiguous:
  assumes "ls \<noteq> []"
    and "\<forall>l\<in>set ls. map seq (rows l) = [s..s + int (length (rows l)) - 1]"
  shows "\<exists>v. formatMultiLegRoute nodeIds wps (Some ls) rt = Some v \<and>
           map sequence (segments v) =
             concat (map (\<lambda>k. map (\<lambda>r. int (sum_list (map (\<lambda>l. length (rows l)) (take k ls)))
                                         + seq r) (rows (ls ! k))) [0..<length ls]) \<and>
           map sequence (segments v) = [s..s + int (length (segments v)) - 1]"
proof -
  let ?st = "stitchLegs init_state ls"
  have formula: "map sequence (allSegments ?st) =
      concat (map (\<lambda>k. map (\<lambda>r. int (sum_list (map (\<lambda>l. length (rows l)) (take k ls)))
                                  + seq r) (rows (ls ! k))) [0..<length ls])"
    unfolding sequence_stitchLegs by (simp add: init_state_def)
  have run: "map sequence (allSegments ?st) = [s..s + sequenceOffset ?st - 1]"
    and nonneg: "0 \<le> sequenceOffset ?st"
    using stitchLegs_contiguous [OF _ _ assms(2), of init_state]
    by (simp_all add: init_state_def)
  have "length (map sequence (allSegments ?st)) = nat (sequenceOffset ?st)"
    unfolding run by simp
  with nonneg have len: "int (length (allSegments ?st)) = sequenceOffset ?st" by simp
  from assms(1) have "formatMultiLegRoute nodeIds wps (Some ls) rt \<noteq> None"
    by (simp add: formatMultiLegRoute_def Let_def)
  then obtain v where v: "formatMultiLegRoute nodeIds wps (Some ls) rt = Some v" by blast
  with assms(1) have "segments v = allSegments ?st"
    by (auto simp add: formatMultiLegRoute_def Let_def)
  with v formula run len show ?thesis by simp
qed

theorem stitched_sequence_contiguous_witness:
  "demo_legs \<noteq> [] \<and>
   list_all (\<lambda>l. map seq (rows l) = [1..1 + int (length (rows l)) - 1]) demo_legs \<and>
   (\<exists>v. formatMultiLegRoute [Some 1, Some 2, Some 3] [] (Some demo_legs) Shortest = Some v \<and>
        map sequence (segments v) = [1, 2, 3, 4])"
proof -
  have h1: "demo_legs \<noteq> []" by (simp add: demo_legs_def)
  have u: "[1..2] = [1, 2::int]" "[1..4] = [1, 2, 3, 4::int]" by (simp_all add: upto_rec1)
  have h2: "\<forall>l\<in>set demo_legs. map seq (rows l) = [1..1 + int (length (rows l)) - 1]"
    by (simp add: demo_legs_def demo_row_def cost_row_def u)
  from stitched_sequence_contiguous [OF h1 h2, of "[Some 1, Some 2, Some 3]" "[]" Shortest]
  obtain v where v: "formatMultiLegRoute [Some 1, Some 2, Some 3] [] (Some demo_legs) Shortest = Some v"
    and r: "map sequence (segments v) = [1..1 + int (length (segments v)) - 1]" by blast
  from v have "length (segments v) = 4"
    by (auto simp add: formatMultiLegRoute_def Let_def demo_legs_def stitchLeg_def init_state_def)
  with r have "map sequence (segments v) = [1, 2, 3, 4]" by (simp add: u)
  with v have ex: "\<exists>v. formatMultiLegRoute [Some 1, Some 2, Some 3] [] (Some demo_legs) Shortest = Some v \<and>
        map sequence (segments v) = [1, 2, 3, 4]"
    by (intro exI [of _ v]) simp
  from h2 have h2': "list_all (\<lambda>l. map seq (rows l) = [1..1 + int (length (rows l)) - 1]) demo_legs"
    by (simp only: list_all_iff)
  show ?thesis by (rule conjI [OF h1 conjI [OF h2' ex]])
qed

subsection \<open>The leg loop and the handler\<close>

lemma calculateMultiLegRoute_Some_iff:
  "(\<exists>ls. fst (calculateMultiLegRoute d req rt nodeIds pts) = Inr (Some ls)) \<longleftrightarrow>
   (\<forall>i<length nodeIds - 1.
      \<exists>rs. calculateLegRoute d req rt (nth_opt nodeIds i) (nth_opt nodeIds (i + 1)) = Inr rs \<and> rs \<noteq> [])"
  unfolding calculateMultiLegRoute_def legLoop_Some_iff by simp

lemma calculateMultiLegRoute_None_iff:
  "fst (calculateMultiLegRoute d req rt nodeIds pts) = Inr None \<longleftrightarrow>
   (\<exists>i<length nodeIds - 1.
      calculateLegRoute d req rt (nth_opt nodeIds i) (nth_opt nodeIds (i + 1)) = Inr [] \<and>
      (\<forall>k<i. \<exists>rs. calculateLegRoute d req rt (nth_opt nodeIds k) (nth_opt nodeIds (k + 1)) = Inr rs \<and>
                rs \<noteq> []))"
  unfolding calculateMultiLegRoute_def legLoop_None_iff by simp

lemma calculateMultiLegRoute_length:
  "fst (calculateMultiLegRoute d req rt nodeIds pts) = Inr (Some ls) \<Longrightarrow>
     length ls = length nodeIds - 1"
  unfolding calculateMultiLegRoute_def by (drule legLoop_length) simp

lemma legLoop_Some_eq:
  assumes "\<forall>j. i \<le> j \<and> j < length nodeIds - 1 \<longrightarrow>
      (\<exists>rs. calculateLegRoute d req rt (nth_opt nodeIds j) (nth_opt nodeIds (j + 1)) = Inr rs \<and>
            rs \<noteq> [])"
  shows "fst (legLoop d req rt nodeIds pts i acc) =
     Inr (Some (acc @
       map (\<lambda>j. \<lparr>fromIndex = j, toIndex = j + 1, fromPoint = js_nth pts j,
                   toPoint = js_nth pts (j + 1),
                   rows = projr (calculateLegRoute d req rt (nth_opt nodeIds j)
                                   (nth_opt nodeIds (j + 1)))\<rparr>)
         [i..<length nodeIds - 1]))"
  using assms
proof (induction "length nodeIds - 1 - i" arbitrary: i acc)
  case 0
  then have nlt: "\<not> i < length nodeIds - 1" by simp
  then have "[i..<length nodeIds - 1] = []" by simp
  then show ?case unfolding legLoop_done [OF nlt] by simp
next
  case (Suc n)
  then have lt: "i < length nodeIds - 1" by simp
  let ?leg = "\<lambda>j. calculateLegRoute d req rt (nth_opt nodeIds j) (nth_opt nodeIds (j + 1))"
  let ?mk = "\<lambda>j. \<lparr>fromIndex = j, toIndex = j + 1, fromPoint = js_nth pts j,
                   toPoint = js_nth pts (j + 1), rows = projr (?leg j)\<rparr>"
  from Suc.prems lt obtain rs where rs: "?leg i = Inr rs" "rs \<noteq> []" by blast
  from Suc.hyps(2) have n: "n = length nodeIds - 1 - (i + 1)" by simp
  have rest: "\<forall>j. i + 1 \<le> j \<and> j < length nodeIds - 1 \<longrightarrow> (\<exists>rs. ?leg j = Inr rs \<and> rs \<noteq> [])"
    using Suc.prems by simp
  have here: "\<lparr>fromIndex = i, toIndex = i + 1, fromPoint = js_nth pts i,
                toPoint = js_nth pts (i + 1), rows = rs\<rparr> = ?mk i"
    using rs(1) by simp
  have upt: "[i..<length nodeIds - 1] = i # [i + 1..<length nodeIds - 1]"
    using lt by (simp add: upt_conv_Cons)
  have "fst (legLoop d req rt nodeIds pts i acc) =
      fst (legLoop d req rt nodeIds pts (i + 1) (acc @ [?mk i]))"
    unfolding here [symmetric] by (subst legLoop_step [OF lt rs]) (rule fst_conv)
  also have "\<dots> = Inr (Some ((acc @ [?mk i]) @ map ?mk [i + 1..<length nodeIds - 1]))"
    by (rule Suc.hyps(1) [OF n rest])
  also have "(acc @ [?mk i]) @ map ?mk [i + 1..<length nodeIds - 1] =
      acc @ map ?mk [i..<length nodeIds - 1]"
    unfolding upt by simp
  finally show ?case .
qed

text \<open>
  Claim C4. For one cost metric, \<open>calculateMultiLegRoute\<close> yields a list of legs
  exactly when the query of every leg returns a non-empty list of rows, and the list
  then holds one leg for every consecutive pair of points, in order, with the rows that
  its query returned. When no query rejects and the query of some leg returns no rows,
  it yields \<open>null\<close>, whatever the other legs return. With at least two points, the
  route of the metric is produced exactly when every leg has rows.
\<close>

theorem empty_leg_is_no_route:
  "(fst (calculateMultiLegRoute d req rt nodeIds pts) = Inr (Some ls) \<longleftrightarrow>
      (\<forall>i<length nodeIds - 1.
         \<exists>rs. calculateLegRoute d req rt (nth_opt nodeIds i) (nth_opt nodeIds (i + 1)) = Inr rs \<and>
              rs \<noteq> []) \<and>
      ls = map (\<lambda>i. \<lparr>fromIndex = i, toIndex = i + 1, fromPoint = js_nth pts i,
                       toPoint = js_nth pts (i + 1),
                       rows = projr (calculateLegRoute d req rt (nth_opt nodeIds i)
                                       (nth_opt nodeIds (i + 1)))\<rparr>)
             [0..<length nodeIds - 1]) \<and>
   ((\<forall>i<length nodeIds - 1.
        \<exists>rs. calculateLegRoute d req rt (nth_opt nodeIds i) (nth_opt nodeIds (i + 1)) = Inr rs) \<longrightarrow>
    (\<exists>i<length nodeIds - 1.
        calculateLegRoute d req rt (nth_opt nodeIds i) (nth_opt nodeIds (i + 1)) = Inr []) \<longrightarrow>
    fst (calculateMultiLegRoute d req rt nodeIds pts) = Inr None) \<and>
   (2 \<le> length nodeIds \<longrightarrow>
    ((\<exists>r v. fst (calculateMultiLegRoute d req rt nodeIds pts) = Inr r \<and>
            formatMultiLegRoute nodeIds wps r rt = Some v) \<longleftrightarrow>
     (\<forall>i<length nodeIds - 1.
        \<exists>rs. calculateLegRoute d req rt (nth_opt nodeIds i) (nth_opt nodeIds (i + 1)) = Inr rs \<and>
             rs \<noteq> [])))"
proof -
  let ?leg = "\<lambda>i. calculateLegRoute d req rt (nth_opt nodeIds i) (nth_opt nodeIds (i + 1))"
  let ?mk = "\<lambda>i. \<lparr>fromIndex = i, toIndex = i + 1, fromPoint = js_nth pts i,
                   toPoint = js_nth pts (i + 1), rows = projr (?leg i)\<rparr>"
  let ?good = "\<forall>i<length nodeIds - 1. \<exists>rs. ?leg i = Inr rs \<and> rs \<noteq> []"
  let ?res = "fst (calculateMultiLegRoute d req rt nodeIds pts)"
  have eq: "?res = Inr (Some (map ?mk [0..<length nodeIds - 1]))" if "?good"
  proof -
    from that have "\<forall>j. 0 \<le> j \<and> j < length nodeIds - 1 \<longrightarrow> (\<exists>rs. ?leg j = Inr rs \<and> rs \<noteq> [])"
      by simp
    from legLoop_Some_eq [OF this, of pts "[]"] show ?thesis
      by (simp add: calculateMultiLegRoute_def)
  qed
  have good: "?good" if "?res = Inr (Some ls)" for ls
    using that calculateMultiLegRoute_Some_iff [of d req rt nodeIds pts] by blast
  have a: "?res = Inr (Some ls) \<longleftrightarrow> ?good \<and> ls = map ?mk [0..<length nodeIds - 1]"
  proof
    assume r: "?res = Inr (Some ls)"
    from good [OF r] have g: "?good" .
    from eq [OF g] r have "ls = map ?mk [0..<length nodeIds - 1]" by simp
    with g show "?good \<and> ls = map ?mk [0..<length nodeIds - 1]" by (rule conjI)
  next
    assume "?good \<and> ls = map ?mk [0..<length nodeIds - 1]"
    with eq show "?res = Inr (Some ls)" by simp
  qed
  have b: "(\<forall>i<length nodeIds - 1. \<exists>rs. ?leg i = Inr rs) \<longrightarrow>
      (\<exists>i<length nodeIds - 1. ?leg i = Inr []) \<longrightarrow> ?res = Inr None"
  proof (intro impI)
    let ?E = "\<lambda>i. i < length nodeIds - 1 \<and> ?leg i = Inr []"
    assume returns: "\<forall>i<length nodeIds - 1. \<exists>rs. ?leg i = Inr rs"
    assume "\<exists>i<length nodeIds - 1. ?leg i = Inr []"
    then obtain i0 where "?E i0" by blast
    define i where "i = (LEAST i. ?E i)"
    have i: "?E i" unfolding i_def using \<open>?E i0\<close> by (rule LeastI)
    have before: "\<exists>rs. ?leg k = Inr rs \<and> rs \<noteq> []" if "k < i" for k
    proof -
      from that have notE: "\<not> ?E k" unfolding i_def by (rule not_less_Least)
      from that i have "k < length nodeIds - 1" by simp
      with returns notE show ?thesis by auto
    qed
    show "?res = Inr None"
      unfolding calculateMultiLegRoute_None_iff using i before by blast
  qed
  have c: "2 \<le> length nodeIds \<longrightarrow>
      ((\<exists>r v. ?res = Inr r \<and> formatMultiLegRoute nodeIds wps r rt = Some v) \<longleftrightarrow> ?good)"
  proof (intro impI iffI)
    assume "\<exists>r v. ?res = Inr r \<and> formatMultiLegRoute nodeIds wps r rt = Some v"
    then obtain r v where r: "?res = Inr r" and v: "formatMultiLegRoute nodeIds wps r rt = Some v"
      by blast
    from v obtain ls where "r = Some ls" by (cases r) (simp_all add: formatMultiLegRoute_def)
    with r good show "?good" by simp
  next
    assume two: "2 \<le> length nodeIds" and g: "?good"
    from two have ne: "map ?mk [0..<length nodeIds - 1] \<noteq> []" by simp
    then have "formatMultiLegRoute nodeIds wps (Some (map ?mk [0..<length nodeIds - 1])) rt \<noteq> None"
      by (simp add: formatMultiLegRoute_def Let_def)
    with eq [OF g] show "\<exists>r v. ?res = Inr r \<and> formatMultiLegRoute nodeIds wps r rt = Some v"
      by blast
  qed
  from a b c show ?thesis by blast
qed

theorem empty_leg_is_no_route_witness:
  "fst (calculateMultiLegRoute island_db demo_request Shortest [Some 7, Some 8]
          (allPoints plain_request)) =
     Inr (Some [\<lparr>fromIndex = 0, toIndex = 1,
                  fromPoint = Some \<lparr>lat = Some 33, lon = Some 133, ptype = Start\<rparr>,
                  toPoint = Some \<lparr>lat = Some 34, lon = Some 134, ptype = End\<rparr>,
                  rows = [demo_row 1 0, demo_row 2 3]\<rparr>]) \<and>
   calculateLegRoute island_db demo_request Shortest (Some 7) (Some 8) \<noteq> Inr [] \<and>
   calculateLegRoute island_db demo_request Shortest (Some 8) (Some 9) = Inr [] \<and>
   fst (calculateMultiLegRoute island_db demo_request Shortest
          [Some 7, Some 8, Some 9] []) = Inr None"
proof -
  let ?ids = "[Some 7, Some 8, Some (9::int)]"
  let ?two = "[Some 7, Some (8::int)]"
  have l0: "calculateLegRoute island_db demo_request Shortest (nth_opt ?ids 0) (nth_opt ?ids (0 + 1)) =
              Inr [demo_row 1 0, demo_row 2 3]"
    by (simp add: calculateLegRoute_def island_db_def nth_opt_def js_nth_def)
  have l1: "calculateLegRoute island_db demo_request Shortest (nth_opt ?ids 1) (nth_opt ?ids (1 + 1)) = Inr []"
    by (simp add: calculateLegRoute_def island_db_def nth_opt_def js_nth_def)
  have lt: "i < length ?ids - 1 \<longleftrightarrow> i = 0 \<or> i = 1" for i by auto
  have h1: "\<forall>i<length ?ids - 1.
      \<exists>rs. calculateLegRoute island_db demo_request Shortest (nth_opt ?ids i) (nth_opt ?ids (i + 1)) = Inr rs"
    unfolding lt using l0 l1 by blast
  have h2: "\<exists>i<length ?ids - 1.
      calculateLegRoute island_db demo_request Shortest (nth_opt ?ids i) (nth_opt ?ids (i + 1)) = Inr []"
    unfolding lt using l1 by blast
  from empty_leg_is_no_route [of island_db demo_request Shortest ?ids "[]"] h1 h2
  have none: "fst (calculateMultiLegRoute island_db demo_request Shortest ?ids []) = Inr None"
    by blast
  have t0: "calculateLegRoute island_db demo_request Shortest (nth_opt ?two 0) (nth_opt ?two (0 + 1)) =
              Inr [demo_row 1 0, demo_row 2 3]"
    by (simp add: calculateLegRoute_def island_db_def nth_opt_def js_nth_def)
  have pts: "allPoints plain_request =
      [\<lparr>lat = Some 33, lon = Some 133, ptype = Start\<rparr>,
       \<lparr>lat = Some 34, lon = Some 134, ptype = End\<rparr>]"
    by (simp add: allPoints_def plain_request_def)
  have g: "\<forall>i<length ?two - 1.
      \<exists>rs. calculateLegRoute island_db demo_request Shortest (nth_opt ?two i)
             (nth_opt ?two (i + 1)) = Inr rs \<and> rs \<noteq> []"
    using t0 by simp
  let ?ls = "map (\<lambda>i. \<lparr>fromIndex = i, toIndex = i + 1,
                       fromPoint = js_nth (allPoints plain_request) i,
                       toPoint = js_nth (allPoints plain_request) (i + 1),
                       rows = projr (calculateLegRoute island_db demo_request Shortest
                                       (nth_opt ?two i) (nth_opt ?two (i + 1)))\<rparr>)
             [0..<length ?two - 1]"
  from empty_leg_is_no_route [of island_db demo_request Shortest ?two "allPoints plain_request" ?ls]
    g
  have "fst (calculateMultiLegRoute island_db demo_request Shortest ?two
          (allPoints plain_request)) = Inr (Some ?ls)" by blast
  moreover have "?ls = [\<lparr>fromIndex = 0, toIndex = 1,
                  fromPoint = Some \<lparr>lat = Some 33, lon = Some 133, ptype = Start\<rparr>,
                  toPoint = Some \<lparr>lat = Some 34, lon = Some 134, ptype = End\<rparr>,
                  rows = [demo_row 1 0, demo_row 2 3]\<rparr>]"
    using t0 by (simp add: pts js_nth_def)
  ultimately have some: "fst (calculateMultiLegRoute island_db demo_request Shortest ?two
          (allPoints plain_request)) =
     Inr (Some [\<lparr>fromIndex = 0, toIndex = 1,
                  fromPoint = Some \<lparr>lat = Some 33, lon = Some 133, ptype = Start\<rparr>,
                  toPoint = Some \<lparr>lat = Some 34, lon = Some 134, ptype = End\<rparr>,
                  rows = [demo_row 1 0, demo_row 2 3]\<rparr>])" by simp
  have n0: "calculateLegRoute island_db demo_request Shortest (Some 7) (Some 8) \<noteq> Inr []"
    by (simp add: calculateLegRoute_def island_db_def)
  have n1: "calculateLegRoute island_db demo_request Shortest (Some 8) (Some 9) = Inr []"
    by (simp add: calculateLegRoute_def island_db_def)
  show ?thesis by (rule conjI [OF some conjI [OF n0 conjI [OF n1 none]]])
qed

text \<open>
  Claim C10. A request whose start or end latitude or longitude is the number 0 is
  answered with status 400, and no query is sent.
\<close>

theorem zero_coordinate_rejected:
  assumes "startLat req = Some 0 \<or> startLon req = Some 0 \<or> endLat req = Some 0 \<or> endLon req = Some 0"
  shows "POST d req = (BadRequest, []) \<and> status (fst (POST d req)) = 400"
proof -
  from assms have "falsy (startLat req) \<or> falsy (startLon req) \<or> falsy (endLat req) \<or>
      falsy (endLon req)"
    by (auto simp add: falsy_def)
  then have "POST d req = (BadRequest, [])" by (simp add: POST_def)
  then show ?thesis by simp
qed

theorem zero_coordinate_rejected_witness:
  "startLon (demo_request\<lparr>startLon := Some 0\<rparr>) = Some 0 \<and>
   POST demo_db (demo_request\<lparr>startLon := Some 0\<rparr>) = (BadRequest, []) \<and>
   status (fst (POST demo_db (demo_request\<lparr>startLon := Some 0\<rparr>))) = 400"
proof -
  have h: "startLon (demo_request\<lparr>startLon := Some 0\<rparr>) = Some 0" by simp
  then have "startLat (demo_request\<lparr>startLon := Some 0\<rparr>) = Some 0 \<or>
      startLon (demo_request\<lparr>startLon := Some 0\<rparr>) = Some 0 \<or>
      endLat (demo_request\<lparr>startLon := Some 0\<rparr>) = Some 0 \<or>
      endLon (demo_request\<lparr>startLon := Some 0\<rparr>) = Some 0" by blast
  from zero_coordinate_rejected [OF this, of demo_db] h show ?thesis by blast
qed

lemma nodeResult_fields:
  "ptype (point.extend p \<lparr>nodeId = n, found = f\<rparr>) = ptype p"
  "found (point.extend p \<lparr>nodeId = n, found = f\<rparr>) = f"
  "nodeId (point.extend p \<lparr>nodeId = n, found = f\<rparr>) = n"
  by (simp_all add: point.defs nodeResult.defs)

lemma resolvePoint_Inr:
  "nearestNodeQuery d (lon p) (lat p) = Inr ids \<Longrightarrow> resolvePoint d p = Inr (nodeResultOf p ids)"
  by (simp add: resolvePoint_def)

lemma promiseAll_resolve:
  assumes "\<forall>p\<in>set ps. \<exists>ids. nearestNodeQuery d (lon p) (lat p) = Inr ids"
  shows "promiseAll (map (resolvePoint d) ps) = Inr (map (resolved d) ps)"
proof -
  have "map (resolvePoint d) ps = map (\<lambda>p. Inr (resolved d p)) ps"
  proof (rule map_cong [OF refl])
    fix p assume "p \<in> set ps"
    with assms obtain ids where "nearestNodeQuery d (lon p) (lat p) = Inr ids" by blast
    then show "resolvePoint d p = Inr (resolved d p)"
      by (simp add: resolvePoint_Inr resolved_def)
  qed
  then show ?thesis by (simp only: promiseAll_map_Inr)
qed






lemma POST_resolved:
  assumes "\<not> falsy (startLat req)" "\<not> falsy (startLon req)"
    "\<not> falsy (endLat req)" "\<not> falsy (endLon req)"
    and "promiseAll (map (resolvePoint d) (allPoints req)) = Inr nodeResults"
    and "\<forall>n\<in>set nodeResults. found n"
  shows "fst (POST d req) = fst (searchRoutes d req nodeResults)"
proof -
  from assms(6) have "filter (\<lambda>n. \<not> found n) nodeResults = []"
    by (simp add: filter_empty_conv)
  with assms(1-5) show ?thesis by (simp add: POST_def Let_def)
qed

lemma formatMultiLegRoute_Some:
  "ls \<noteq> [] \<Longrightarrow> \<exists>v. formatMultiLegRoute nodeIds wps (Some ls) rt = Some v \<and> routeType v = rt \<and>
      segments v = allSegments (stitchLegs init_state ls)"
  by (simp add: formatMultiLegRoute_def Let_def)

lemma formatMultiLegRoute_None [simp]: "formatMultiLegRoute nodeIds wps None rt = None"
  by (simp add: formatMultiLegRoute_def)

lemma searchRoutes_cases:
  assumes s: "fst (calculateMultiLegRoute d req Shortest (map nodeId nodeResults)
                 (allPoints req)) = Inr sl"
    and f: "fst (calculateMultiLegRoute d req Fastest (map nodeId nodeResults)
                 (allPoints req)) = Inr fl"
  shows "fst (searchRoutes d req nodeResults) =
     (if sl = None \<and> fl = None then RouteNotFound
      else Ok \<lparr>shortest = formatMultiLegRoute (map nodeId nodeResults) (waypoints req) sl Shortest,
              fastest = formatMultiLegRoute (map nodeId nodeResults) (waypoints req) fl Fastest,
              routes = map the (filter (\<lambda>r. r \<noteq> None)
                 [formatMultiLegRoute (map nodeId nodeResults) (waypoints req) sl Shortest,
                  formatMultiLegRoute (map nodeId nodeResults) (waypoints req) fl Fastest]),
              r_waypoints = waypoints req,
              r_avoidAreas = avoidAreas req,
              r_constraints =
                \<lparr>c_avoidMotorways = avoidMotorways req, c_vehicleWidth = vehicleWidth req,
                 c_vehicleHeight = vehicleHeight req, c_avoidAreas = length (avoidAreas req)\<rparr>\<rparr>)"
  unfolding searchRoutes_def Let_def s f by simp

text \<open>
  Claim C3. Once every point is resolved and neither pipeline rejects: when exactly one
  of the two metrics yields its legs, the handler answers with a result that holds that
  metric's route and leaves the other absent; the answer is "route not found", of
  status 404, exactly when both metrics yield no legs.
\<close>

theorem partial_metric_success:
  assumes "\<not> falsy (startLat req)" "\<not> falsy (startLon req)"
    "\<not> falsy (endLat req)" "\<not> falsy (endLon req)"
    and res: "promiseAll (map (resolvePoint d) (allPoints req)) = Inr nodeResults"
    and found: "\<forall>n\<in>set nodeResults. found n"
    and s: "fst (calculateMultiLegRoute d req Shortest (map nodeId nodeResults)
                 (allPoints req)) = Inr sl"
    and f: "fst (calculateMultiLegRoute d req Fastest (map nodeId nodeResults)
                 (allPoints req)) = Inr fl"
  shows "(sl \<noteq> None \<and> fl = None \<longrightarrow>
            (\<exists>res v. fst (POST d req) = Ok res \<and> shortest res = Some v \<and>
                      routeType v = Shortest \<and> fastest res = None \<and> routes res = [v])) \<and>
         (sl = None \<and> fl \<noteq> None \<longrightarrow>
            (\<exists>res v. fst (POST d req) = Ok res \<and> fastest res = Some v \<and>
                      routeType v = Fastest \<and> shortest res = None \<and> routes res = [v])) \<and>
         (fst (POST d req) = RouteNotFound \<longleftrightarrow> sl = None \<and> fl = None) \<and>
         status RouteNotFound = 404"
proof -
  let ?ids = "map nodeId nodeResults"
  have post: "fst (POST d req) = fst (searchRoutes d req nodeResults)"
    by (rule POST_resolved [OF assms(1-4) res found])
  have len: "length ?ids - 1 = length (waypoints req) + 1"
    using promiseAll_length [OF res] by (simp add: length_allPoints)
  have ne: "ls \<noteq> []" if "sl = Some ls \<or> fl = Some ls" for ls
  proof -
    from that s f have "length ls = length ?ids - 1"
      by (auto dest: calculateMultiLegRoute_length)
    with len show ?thesis by auto
  qed
  note cases = searchRoutes_cases [OF s f]
  have a: "\<exists>res v. fst (POST d req) = Ok res \<and> shortest res = Some v \<and>
                      routeType v = Shortest \<and> fastest res = None \<and> routes res = [v]"
    if "sl \<noteq> None \<and> fl = None"
  proof -
    from that obtain ls where sl: "sl = Some ls" and fl: "fl = None" by blast
    from ne sl have "ls \<noteq> []" by simp
    from formatMultiLegRoute_Some [OF this, of ?ids "waypoints req" Shortest]
    obtain v where v: "formatMultiLegRoute ?ids (waypoints req) (Some ls) Shortest = Some v"
      "routeType v = Shortest" by blast
    show ?thesis unfolding post cases using sl fl v by simp
  qed
  have b: "\<exists>res v. fst (POST d req) = Ok res \<and> fastest res = Some v \<and>
                      routeType v = Fastest \<and> shortest res = None \<and> routes res = [v]"
    if "sl = None \<and> fl \<noteq> None"
  proof -
    from that obtain ls where sl: "sl = None" and fl: "fl = Some ls" by blast
    from ne fl have "ls \<noteq> []" by simp
    from formatMultiLegRoute_Some [OF this, of ?ids "waypoints req" Fastest]
    obtain v where v: "formatMultiLegRoute ?ids (waypoints req) (Some ls) Fastest = Some v"
      "routeType v = Fastest" by blast
    show ?thesis unfolding post cases using sl fl v by simp
  qed
  have c: "fst (POST d req) = RouteNotFound \<longleftrightarrow> sl = None \<and> fl = None"
    unfolding post cases by simp
  from a b c show ?thesis by simp
qed


lemma allPoints_demo_request:
  "allPoints demo_request =
     [\<lparr>lat = Some 33, lon = Some 133, ptype = Start\<rparr>,
      \<lparr>lat = Some 33.5, lon = Some 133.5, ptype = Waypoint 0\<rparr>,
      \<lparr>lat = Some 34, lon = Some 134, ptype = End\<rparr>]"
  by (simp add: allPoints_def demo_request_def)

theorem partial_metric_success_witness:
  "\<exists>res v. fst (POST demo_db demo_request) = Ok res \<and> shortest res = Some v \<and>
      routeType v = Shortest \<and> fastest res = None \<and> routes res = [v]"
proof -
  let ?nrs = "map (resolved demo_db) (allPoints demo_request)"
  let ?ids = "map nodeId ?nrs"
  have v: "\<not> falsy (startLat demo_request)" "\<not> falsy (startLon demo_request)"
    "\<not> falsy (endLat demo_request)" "\<not> falsy (endLon demo_request)"
    by (simp_all add: demo_request_def falsy_def)
  have "\<forall>p\<in>set (allPoints demo_request).
      \<exists>ids. nearestNodeQuery demo_db (lon p) (lat p) = Inr ids"
    by (simp add: allPoints_demo_request demo_db_def)
  then have res: "promiseAll (map (resolvePoint demo_db) (allPoints demo_request)) = Inr ?nrs"
    by (rule promiseAll_resolve)
  have found: "\<forall>n\<in>set ?nrs. found n"
    by (simp add: allPoints_demo_request demo_db_def resolved_def nodeResultOf_def
        nodeResult_fields)
  have "\<exists>ls. fst (calculateMultiLegRoute demo_db demo_request Shortest ?ids
                  (allPoints demo_request)) = Inr (Some ls)"
    unfolding calculateMultiLegRoute_Some_iff
    by (simp add: calculateLegRoute_def queryOf_def demo_db_def shortestRouteQuery_def)
  then obtain ls where s: "fst (calculateMultiLegRoute demo_db demo_request Shortest
      ?ids (allPoints demo_request)) = Inr (Some ls)" by blast
  have f: "fst (calculateMultiLegRoute demo_db demo_request Fastest ?ids
      (allPoints demo_request)) = Inr None"
    unfolding calculateMultiLegRoute_None_iff
    by (intro exI [of _ 0])
       (simp add: calculateLegRoute_def queryOf_def demo_db_def fastestRouteQuery_def
          allPoints_demo_request)
  from partial_metric_success [OF v res found s f] show ?thesis by simp
qed

subsection \<open>The WHERE clause\<close>

lemma admits_iff: "admits S cs w \<longleftrightarrow> (\<forall>c\<in>set cs. holds S w c)"
  by (simp add: admits_def list_all_iff)

lemma admits_append: "admits S (cs @ ds) w \<longleftrightarrow> admits S cs w \<and> admits S ds w"
  by (simp add: admits_def)

lemma admits_Nil: "admits S [] w"
  by (simp add: admits_def)

lemma admits_single: "admits S [c] w \<longleftrightarrow> holds S w c"
  by (simp add: admits_def)

lemma holds_tag_values:
  "holds S w (NotExistsTagValueIn vs) \<longleftrightarrow> (\<forall>v\<in>set vs. \<not> tagged S w v)"
  by (auto simp add: tagged_def)

lemma truthy_gt_iff: "0 \<le> limit \<Longrightarrow> truthy_gt x limit \<longleftrightarrow> (\<exists>v. x = Some v \<and> v > limit)"
  by (cases x) (auto simp add: truthy_gt_def falsy_def)

lemma areaCondition_eq:
  "areaCondition a =
     NotIntersectsBuffer Geography (area_lon a) (area_lat a) (orElse (radius a) 500)"
  by (simp add: areaCondition_def Let_def)

lemma orElse_radius:
  "orElse x 500 = (case x of None \<Rightarrow> 500 | Some r \<Rightarrow> if r = 0 then 500 else r)"
  by (cases x) (simp_all add: orElse_def falsy_def)

lemma admits_areas:
  "admits S (map areaCondition as) w \<longleftrightarrow>
     (\<forall>a\<in>set as.
        \<not> ground_distance S (the_geom w) (area_lon a) (area_lat a) \<le> orElse (radius a) 500)"
  by (simp add: admits_iff areaCondition_eq)

lemma avoid_part: "(if length as > 0 then map areaCondition as else []) = map areaCondition as"
  by (cases as) simp_all

lemma buildWhereClause_admits:
  "admits S (buildWhereClause req base) w \<longleftrightarrow>
     (case base of None \<Rightarrow> True | Some b \<Rightarrow> holds S w b) \<and>
     (avoidMotorways req \<longrightarrow> \<not> tagged S w ''motorway'' \<and> \<not> tagged S w ''motorway_link'') \<and>
     (truthy_gt (vehicleWidth req) 2.5 \<longrightarrow>
        \<not> tagged S w ''service'' \<and> \<not> tagged S w ''residential'' \<and>
        \<not> tagged S w ''living_street'' \<and> \<not> tagged S w ''track'') \<and>
     (truthy_gt (vehicleHeight req) 3.5 \<longrightarrow> \<not> tagged S w ''tunnel'') \<and>
     admits S (map areaCondition (avoidAreas req)) w"
proof -
  have a: "admits S (case base of None \<Rightarrow> [] | Some b \<Rightarrow> [b]) w \<longleftrightarrow>
      (case base of None \<Rightarrow> True | Some b \<Rightarrow> holds S w b)"
    by (cases base) (simp_all add: admits_def)
  have b: "admits S (if avoidMotorways req
        then [NotExistsTagValueIn [''motorway'', ''motorway_link'']] else []) w \<longleftrightarrow>
      (avoidMotorways req \<longrightarrow> \<not> tagged S w ''motorway'' \<and> \<not> tagged S w ''motorway_link'')"
    by (simp add: admits_Nil admits_single holds_tag_values del: holds.simps)
  have c: "admits S (if truthy_gt (vehicleWidth req) 2.5
        then [NotExistsTagValueIn [''service'', ''residential'', ''living_street'', ''track'']]
        else []) w \<longleftrightarrow>
      (truthy_gt (vehicleWidth req) 2.5 \<longrightarrow>
        \<not> tagged S w ''service'' \<and> \<not> tagged S w ''residential'' \<and>
        \<not> tagged S w ''living_street'' \<and> \<not> tagged S w ''track'')"
    by (simp add: admits_Nil admits_single holds_tag_values del: holds.simps)
  have d: "admits S (if truthy_gt (vehicleHeight req) 3.5
        then [NotExistsTagValueIn [''tunnel'']] else []) w \<longleftrightarrow>
      (truthy_gt (vehicleHeight req) 3.5 \<longrightarrow> \<not> tagged S w ''tunnel'')"
    by (simp add: admits_Nil admits_single holds_tag_values del: holds.simps)
  show ?thesis
    unfolding buildWhereClause_def admits_append a b c d avoid_part ..
qed


lemma tag_clause_mem:
  "NotExistsTagValueIn vs \<in> set (buildWhereClause req base) \<longleftrightarrow>
     base = Some (NotExistsTagValueIn vs) \<or>
     (avoidMotorways req \<and> vs = [''motorway'', ''motorway_link'']) \<or>
     (truthy_gt (vehicleWidth req) 2.5 \<and>
        vs = [''service'', ''residential'', ''living_street'', ''track'']) \<or>
     (truthy_gt (vehicleHeight req) 3.5 \<and> vs = [''tunnel''])"
proof -
  have "NotExistsTagValueIn vs \<notin> set (map areaCondition as)" for as
    by (auto simp add: areaCondition_eq)
  then show ?thesis
    unfolding buildWhereClause_def avoid_part
    by (cases base) (auto simp del: set_map)
qed

text \<open>
  Claim C6. A row of \<open>ways\<close> is admitted by the compiled clause exactly when it
  passes each rule that is switched on: no tag \<open>motorway\<close> or \<open>motorway_link\<close>
  when \<open>avoidMotorways\<close> holds; no tag \<open>service\<close>, \<open>residential\<close>,
  \<open>living_street\<close> or \<open>track\<close> when the vehicle width is given and exceeds 2.5;
  no tag \<open>tunnel\<close> when the vehicle height is given and exceeds 3.5; and the
  conditions of the avoid areas. The condition of a rule is in the clause exactly when
  the rule is switched on, and the order of the conditions does not matter.
\<close>

theorem constraint_rules:
  "(admits S (buildWhereClause req None) w \<longleftrightarrow>
      (avoidMotorways req \<longrightarrow> \<not> tagged S w ''motorway'' \<and> \<not> tagged S w ''motorway_link'') \<and>
      ((\<exists>x. vehicleWidth req = Some x \<and> x > 2.5) \<longrightarrow>
         \<not> tagged S w ''service'' \<and> \<not> tagged S w ''residential'' \<and>
         \<not> tagged S w ''living_street'' \<and> \<not> tagged S w ''track'') \<and>
      ((\<exists>x. vehicleHeight req = Some x \<and> x > 3.5) \<longrightarrow> \<not> tagged S w ''tunnel'') \<and>
      admits S (map areaCondition (avoidAreas req)) w) \<and>
   (NotExistsTagValueIn [''motorway'', ''motorway_link''] \<in> set (buildWhereClause req None) \<longleftrightarrow>
      avoidMotorways req) \<and>
   (NotExistsTagValueIn [''service'', ''residential'', ''living_street'', ''track'']
        \<in> set (buildWhereClause req None) \<longleftrightarrow>
      (\<exists>x. vehicleWidth req = Some x \<and> x > 2.5)) \<and>
   (NotExistsTagValueIn [''tunnel''] \<in> set (buildWhereClause req None) \<longleftrightarrow>
      (\<exists>x. vehicleHeight req = Some x \<and> x > 3.5)) \<and>
   (\<forall>cs. set cs = set (buildWhereClause req None) \<longrightarrow>
      admits S cs w = admits S (buildWhereClause req None) w)"
proof -
  have wd: "truthy_gt (vehicleWidth req) 2.5 \<longleftrightarrow> (\<exists>x. vehicleWidth req = Some x \<and> x > 2.5)"
    by (rule truthy_gt_iff) simp
  have ht: "truthy_gt (vehicleHeight req) 3.5 \<longleftrightarrow> (\<exists>x. vehicleHeight req = Some x \<and> x > 3.5)"
    by (rule truthy_gt_iff) simp
  have sem: "admits S (buildWhereClause req None) w \<longleftrightarrow>
      (avoidMotorways req \<longrightarrow> \<not> tagged S w ''motorway'' \<and> \<not> tagged S w ''motorway_link'') \<and>
      ((\<exists>x. vehicleWidth req = Some x \<and> x > 2.5) \<longrightarrow>
         \<not> tagged S w ''service'' \<and> \<not> tagged S w ''residential'' \<and>
         \<not> tagged S w ''living_street'' \<and> \<not> tagged S w ''track'') \<and>
      ((\<exists>x. vehicleHeight req = Some x \<and> x > 3.5) \<longrightarrow> \<not> tagged S w ''tunnel'') \<and>
      admits S (map areaCondition (avoidAreas req)) w"
    unfolding buildWhereClause_admits wd ht by simp
  have m1: "NotExistsTagValueIn [''motorway'', ''motorway_link''] \<in> set (buildWhereClause req None) \<longleftrightarrow>
      avoidMotorways req"
    unfolding tag_clause_mem by simp
  have m2: "NotExistsTagValueIn [''service'', ''residential'', ''living_street'', ''track'']
        \<in> set (buildWhereClause req None) \<longleftrightarrow> (\<exists>x. vehicleWidth req = Some x \<and> x > 2.5)"
    unfolding tag_clause_mem wd by simp
  have m3: "NotExistsTagValueIn [''tunnel''] \<in> set (buildWhereClause req None) \<longleftrightarrow>
      (\<exists>x. vehicleHeight req = Some x \<and> x > 3.5)"
    unfolding tag_clause_mem ht by simp
  have ord: "\<forall>cs. set cs = set (buildWhereClause req None) \<longrightarrow>
      admits S cs w = admits S (buildWhereClause req None) w"
    by (simp add: admits_iff)
  from sem m1 m2 m3 ord show ?thesis by blast
qed

theorem constraint_rules_witness:
  "\<not> admits demo_store (buildWhereClause demo_request None) motorway_way \<and>
   admits demo_store (buildWhereClause demo_request None) demo_way \<and>
   NotExistsTagValueIn [''motorway'', ''motorway_link''] \<in> set (buildWhereClause demo_request None) \<and>
   NotExistsTagValueIn [''tunnel''] \<notin> set (buildWhereClause demo_request None)"
proof -
  have t1: "tagged demo_store motorway_way ''motorway''"
    by (simp add: tagged_def demo_store_def motorway_way_def)
  have t2: "\<not> tagged demo_store demo_way v" if "v \<noteq> ''primary''" for v
    using that by (auto simp add: tagged_def demo_store_def demo_way_def)
  have far: "admits demo_store (map areaCondition (avoidAreas demo_request)) demo_way"
    by (simp add: admits_def demo_request_def areaCondition_eq orElse_def falsy_def
        demo_store_def demo_way_def power2_eq_square)
  have am: "avoidMotorways demo_request" and h: "vehicleHeight demo_request = None"
    and wd: "vehicleWidth demo_request = Some 3"
    by (simp_all add: demo_request_def)
  note r = constraint_rules [of demo_store demo_request]
  from r [of motorway_way] t1 am
  have "\<not> admits demo_store (buildWhereClause demo_request None) motorway_way" by blast
  moreover from r [of demo_way] far t2
  have "admits demo_store (buildWhereClause demo_request None) demo_way" by simp
  moreover from r [of demo_way] am h
  have "NotExistsTagValueIn [''motorway'', ''motorway_link''] \<in> set (buildWhereClause demo_request None)"
    "NotExistsTagValueIn [''tunnel''] \<notin> set (buildWhereClause demo_request None)"
    by simp_all
  ultimately show ?thesis by blast
qed


text \<open>
  Claim C7. When a second request switches on every constraint the first one does
  (motorway avoidance, the width rule, the height rule, each avoid area), every row
  admitted under the second is admitted under the first.
\<close>

theorem adding_constraints_shrinks:
  assumes "avoidMotorways r1 \<longrightarrow> avoidMotorways r2"
    and "(\<exists>x. vehicleWidth r1 = Some x \<and> x > 2.5) \<longrightarrow> (\<exists>x. vehicleWidth r2 = Some x \<and> x > 2.5)"
    and "(\<exists>x. vehicleHeight r1 = Some x \<and> x > 3.5) \<longrightarrow> (\<exists>x. vehicleHeight r2 = Some x \<and> x > 3.5)"
    and "set (avoidAreas r1) \<subseteq> set (avoidAreas r2)"
  shows "{w :: ('g, 'b) way_scheme. admits S (buildWhereClause r2 base) w}
           \<subseteq> {w. admits S (buildWhereClause r1 base) w}"
proof -
  have wd: "truthy_gt (vehicleWidth r) 2.5 \<longleftrightarrow> (\<exists>x. vehicleWidth r = Some x \<and> x > 2.5)"
    for r :: request
    by (rule truthy_gt_iff) simp
  have ht: "truthy_gt (vehicleHeight r) 3.5 \<longleftrightarrow> (\<exists>x. vehicleHeight r = Some x \<and> x > 3.5)"
    for r :: request
    by (rule truthy_gt_iff) simp
  have areas: "admits S (map areaCondition (avoidAreas r2)) w \<Longrightarrow>
      admits S (map areaCondition (avoidAreas r1)) w" for w :: "('g, 'b) way_scheme"
    unfolding admits_areas using assms(4) by blast
  show ?thesis
  proof
    fix w :: "('g, 'b) way_scheme"
    assume "w \<in> {w. admits S (buildWhereClause r2 base) w}"
    then have "admits S (buildWhereClause r2 base) w" by simp
    then have "admits S (buildWhereClause r1 base) w"
      unfolding buildWhereClause_admits wd ht using assms(1-3) areas by blast
    then show "w \<in> {w. admits S (buildWhereClause r1 base) w}" by simp
  qed
qed

theorem adding_constraints_shrinks_witness:
  "{w. admits demo_store (buildWhereClause demo_request None) w}
     \<subseteq> {w. admits demo_store (buildWhereClause plain_request None) w} \<and>
   motorway_way \<in> {w. admits demo_store (buildWhereClause plain_request None) w} \<and>
   motorway_way \<notin> {w. admits demo_store (buildWhereClause demo_request None) w}"
proof -
  have a: "avoidMotorways plain_request \<longrightarrow> avoidMotorways demo_request"
    and b: "(\<exists>x. vehicleWidth plain_request = Some x \<and> x > 2.5) \<longrightarrow>
            (\<exists>x. vehicleWidth demo_request = Some x \<and> x > 2.5)"
    and c: "(\<exists>x. vehicleHeight plain_request = Some x \<and> x > 3.5) \<longrightarrow>
            (\<exists>x. vehicleHeight demo_request = Some x \<and> x > 3.5)"
    and d: "set (avoidAreas plain_request) \<subseteq> set (avoidAreas demo_request)"
    by (simp_all add: plain_request_def demo_request_def)
  have "buildWhereClause plain_request None = []"
    by (simp add: buildWhereClause_def plain_request_def truthy_gt_def falsy_def)
  then have p: "motorway_way \<in> {w. admits demo_store (buildWhereClause plain_request None) w}"
    by (simp add: admits_Nil)
  have "tagged demo_store motorway_way ''motorway''"
    by (simp add: tagged_def demo_store_def motorway_way_def)
  moreover have "avoidMotorways demo_request" by (simp add: demo_request_def)
  ultimately have q: "motorway_way \<notin> {w. admits demo_store (buildWhereClause demo_request None) w}"
    by (simp add: buildWhereClause_admits)
  from adding_constraints_shrinks [OF a b c d, of demo_store None] p q
  show ?thesis by blast
qed

lemma buffer_clause_mem:
  "NotIntersectsBuffer t lo la r \<in> set (buildWhereClause req base) \<longleftrightarrow>
     base = Some (NotIntersectsBuffer t lo la r) \<or>
     (t = Geography \<and>
      (\<exists>a\<in>set (avoidAreas req). lo = area_lon a \<and> la = area_lat a \<and> r = orElse (radius a) 500))"
proof -
  have "NotIntersectsBuffer t lo la r \<in> set (map areaCondition as) \<longleftrightarrow>
      t = Geography \<and>
      (\<exists>a\<in>set as. lo = area_lon a \<and> la = area_lat a \<and> r = orElse (radius a) 500)" for as
    by (auto simp add: areaCondition_eq)
  then show ?thesis
    unfolding buildWhereClause_def avoid_part
    by (cases base) (auto simp del: set_map)
qed

text \<open>
  Claim C8, as stated, fails for an avoid area whose radius is 0: the specification's
  reading gives the buffer the radius 0, the handler gives it 500, and so excludes a
  way 333 metres from the centre, which a buffer of radius 0 does not meet.
\<close>

theorem zero_radius_counterexample:
  "areaCondition zero_radius_area \<noteq>
     NotIntersectsBuffer Geography (area_lon zero_radius_area) (area_lat zero_radius_area)
       (spec_radiusMeters zero_radius_area) \<and>
   areaCondition zero_radius_area = NotIntersectsBuffer Geography 133.2 33.2 500 \<and>
   \<not> admits demo_store (buildWhereClause (plain_request\<lparr>avoidAreas := [zero_radius_area]\<rparr>) None)
       near_way \<and>
   \<not> ground_distance demo_store (the_geom near_way) 133.2 33.2 \<le> 0"
  by (simp add: areaCondition_eq orElse_def falsy_def zero_radius_area_def spec_radiusMeters_def
      buildWhereClause_def plain_request_def truthy_gt_def admits_def demo_store_def near_way_def)

text \<open>
  Claim C8, amended. With \<open>radiusMeters\<close> the area's radius, or 500 when the radius
  is unset or is 0: a row is admitted exactly when it passes the other rules and, for
  every avoid area, its distance on the ground to the area's centre, in metres, exceeds
  \<open>radiusMeters\<close>. The buffer conditions of the clause are exactly those of the avoid
  areas, each on the geography type with \<open>radiusMeters\<close> as its radius; no buffer of
  the clause is measured in degrees, and admission does not read the distance in
  degrees.
\<close>

theorem avoid_zone_buffer:
  "(admits S (buildWhereClause req base) w \<longleftrightarrow>
      admits S (buildWhereClause (req\<lparr>avoidAreas := []\<rparr>) base) w \<and>
      (\<forall>a\<in>set (avoidAreas req).
         \<not> ground_distance S (the_geom w) (area_lon a) (area_lat a)
             \<le> (case radius a of None \<Rightarrow> 500 | Some r \<Rightarrow> if r = 0 then 500 else r))) \<and>
   (NotIntersectsBuffer t lo la r \<in> set (buildWhereClause req None) \<longleftrightarrow>
      t = Geography \<and>
      (\<exists>a\<in>set (avoidAreas req). lo = area_lon a \<and> la = area_lat a \<and>
         r = (case radius a of None \<Rightarrow> 500 | Some r \<Rightarrow> if r = 0 then 500 else r))) \<and>
   (NotIntersectsBuffer t lo la r \<in> set (buildWhereClause req (Some CostSIsNotNull)) \<longleftrightarrow>
      NotIntersectsBuffer t lo la r \<in> set (buildWhereClause req None)) \<and>
   admits (S\<lparr>degree_distance := dd\<rparr>) (buildWhereClause req None) w =
     admits S (buildWhereClause req None) w"
proof -
  have sem: "admits S (buildWhereClause req base) w \<longleftrightarrow>
      admits S (buildWhereClause (req\<lparr>avoidAreas := []\<rparr>) base) w \<and>
      (\<forall>a\<in>set (avoidAreas req).
         \<not> ground_distance S (the_geom w) (area_lon a) (area_lat a)
             \<le> (case radius a of None \<Rightarrow> 500 | Some r \<Rightarrow> if r = 0 then 500 else r))"
    unfolding buildWhereClause_admits admits_areas orElse_radius by auto
  have mem: "NotIntersectsBuffer t lo la r \<in> set (buildWhereClause req None) \<longleftrightarrow>
      t = Geography \<and>
      (\<exists>a\<in>set (avoidAreas req). lo = area_lon a \<and> la = area_lat a \<and>
         r = (case radius a of None \<Rightarrow> 500 | Some r \<Rightarrow> if r = 0 then 500 else r))"
    unfolding buffer_clause_mem orElse_radius by simp
  have same: "NotIntersectsBuffer t lo la r \<in> set (buildWhereClause req (Some CostSIsNotNull)) \<longleftrightarrow>
      NotIntersectsBuffer t lo la r \<in> set (buildWhereClause req None)"
    unfolding buffer_clause_mem by simp
  have tg: "tagged (S\<lparr>degree_distance := dd\<rparr>) w v = tagged S w v" for v
    by (simp add: tagged_def)
  have indep: "admits (S\<lparr>degree_distance := dd\<rparr>) (buildWhereClause req None) w =
      admits S (buildWhereClause req None) w"
    unfolding buildWhereClause_admits admits_areas tg by simp
  from sem mem same indep show ?thesis by blast
qed

theorem avoid_zone_buffer_witness:
  "admits demo_store (buildWhereClause demo_request None) demo_way \<and>
   \<not> admits demo_store (buildWhereClause demo_request None) near_way \<and>
   ground_distance demo_store (the_geom near_way) 133.2 33.2 = 333 \<and>
   \<not> degree_distance demo_store (the_geom near_way) 133.2 33.2 \<le> 500 / 111000 \<and>
   NotIntersectsBuffer Geography 133.2 33.2 500 \<in> set (buildWhereClause demo_request None)"
proof -
  have areas: "avoidAreas demo_request = [\<lparr>area_lat = 33.2, area_lon = 133.2, radius = None\<rparr>]"
    by (simp add: demo_request_def)
  have rest: "buildWhereClause (demo_request\<lparr>avoidAreas := []\<rparr>) None =
      [NotExistsTagValueIn [''motorway'', ''motorway_link''],
       NotExistsTagValueIn [''service'', ''residential'', ''living_street'', ''track'']]"
    by (simp add: buildWhereClause_def demo_request_def truthy_gt_def falsy_def)
  have far: "\<not> ground_distance demo_store (the_geom demo_way) 133.2 33.2 \<le> 500"
    by (simp add: demo_store_def demo_way_def)
  have near: "ground_distance demo_store (the_geom near_way) 133.2 33.2 = 333"
    by (simp add: demo_store_def near_way_def)
  have deg: "\<not> degree_distance demo_store (the_geom near_way) 133.2 33.2 \<le> 500 / 111000"
    by (simp add: demo_store_def near_way_def)
  have ok: "admits demo_store (buildWhereClause (demo_request\<lparr>avoidAreas := []\<rparr>) None) demo_way"
    unfolding rest by (simp add: admits_def demo_store_def demo_way_def)
  note z = avoid_zone_buffer [where S = demo_store and req = demo_request and base = None
      and t = Geography and lo = "133.2" and la = "33.2" and r = 500]
  from z [where w = demo_way] ok far
  have a: "admits demo_store (buildWhereClause demo_request None) demo_way"
    by (simp add: areas)
  from z [where w = near_way] near
  have b: "\<not> admits demo_store (buildWhereClause demo_request None) near_way"
    by (simp add: areas)
  from z [where w = demo_way]
  have c: "NotIntersectsBuffer Geography 133.2 33.2 500 \<in> set (buildWhereClause demo_request None)"
    by (simp add: areas)
  show ?thesis by (rule conjI [OF a conjI [OF b conjI [OF near conjI [OF deg c]]]])
qed

lemma legLoop_log:
  "set (snd (legLoop d req rt nodeIds pts i acc)) \<subseteq> {x. \<exists>a b. x = Dijkstra (queryOf req rt) a b}"
proof (induction "length nodeIds - 1 - i" arbitrary: i acc)
  case 0
  then have "\<not> i < length nodeIds - 1" by simp
  then show ?case by (simp add: legLoop_done del: legLoop.simps)
next
  case (Suc n)
  then have lt: "i < length nodeIds - 1" by simp
  show ?case
  proof (cases "calculateLegRoute d req rt (nth_opt nodeIds i) (nth_opt nodeIds (i + 1))")
    case (Inl e)
    show ?thesis unfolding legLoop_reject [OF lt Inl] by simp
  next
    case (Inr rs)
    show ?thesis
    proof (cases "rs = []")
      case True
      with Inr have e: "calculateLegRoute d req rt (nth_opt nodeIds i) (nth_opt nodeIds (i + 1)) = Inr []"
        by simp
      show ?thesis unfolding legLoop_empty [OF lt e] by simp
    next
      case False
      from Suc.hyps(2) have n: "n = length nodeIds - 1 - (i + 1)" by simp
      show ?thesis
        unfolding legLoop_step [OF lt Inr False] using Suc.hyps(1) [OF n] by simp
    qed
  qed
qed

lemma POST_log:
  "set (snd (POST d req)) \<subseteq>
     {x. \<exists>lo la. x = NearestNode lo la} \<union>
     {x. \<exists>a b. x = Dijkstra (shortestRouteQuery req) a b} \<union>
     {x. \<exists>a b. x = Dijkstra (fastestRouteQuery req) a b}"
proof -
  have near: "set (map (\<lambda>p. NearestNode (lon p) (lat p)) ps) \<subseteq> {x. \<exists>lo la. x = NearestNode lo la}"
    for ps :: "point list"
    by auto
  have search: "set (snd (searchRoutes d req nrs)) \<subseteq>
      {x. \<exists>a b. x = Dijkstra (shortestRouteQuery req) a b} \<union>
      {x. \<exists>a b. x = Dijkstra (fastestRouteQuery req) a b}" for nrs
  proof -
    let ?s = "calculateMultiLegRoute d req Shortest (map nodeId nrs) (allPoints req)"
    let ?f = "calculateMultiLegRoute d req Fastest (map nodeId nrs) (allPoints req)"
    have qs: "queryOf req Shortest = shortestRouteQuery req"
      and qf: "queryOf req Fastest = fastestRouteQuery req"
      by (simp_all add: queryOf_def)
    have "snd (searchRoutes d req nrs) = snd ?s @ snd ?f"
      by (simp add: searchRoutes_def Let_def split: sum.splits)
    moreover have "set (snd ?s) \<subseteq> {x. \<exists>a b. x = Dijkstra (shortestRouteQuery req) a b}"
      unfolding calculateMultiLegRoute_def qs [symmetric] by (rule legLoop_log)
    moreover have "set (snd ?f) \<subseteq> {x. \<exists>a b. x = Dijkstra (fastestRouteQuery req) a b}"
      unfolding calculateMultiLegRoute_def qf [symmetric] by (rule legLoop_log)
    ultimately show ?thesis by auto
  qed
  show ?thesis
  proof (cases "falsy (startLat req) \<or> falsy (startLon req) \<or> falsy (endLat req) \<or>
      falsy (endLon req)")
    case True
    then show ?thesis by (simp add: POST_def)
  next
    case False
    show ?thesis
    proof (cases "promiseAll (map (resolvePoint d) (allPoints req))")
      case (Inl e)
      with False near [of "allPoints req"] show ?thesis
        by (auto simp add: POST_def Let_def simp del: set_map)
    next
      case (Inr nrs)
      with False near [of "allPoints req"] search [of nrs] show ?thesis
        by (auto simp add: POST_def Let_def simp del: set_map)
    qed
  qed
qed

lemma tagged_cost_s: "tagged S (w\<lparr>cost_s := c\<rparr>) v = tagged S w v"
  by (simp add: tagged_def)

lemma POST_Ok:
  assumes "fst (POST d req) = Ok res"
  shows "\<exists>nrs sl fl.
      promiseAll (map (resolvePoint d) (allPoints req)) = Inr nrs \<and>
      fst (calculateMultiLegRoute d req Shortest (map nodeId nrs) (allPoints req)) = Inr sl \<and>
      fst (calculateMultiLegRoute d req Fastest (map nodeId nrs) (allPoints req)) = Inr fl \<and>
      shortest res = formatMultiLegRoute (map nodeId nrs) (waypoints req) sl Shortest \<and>
      fastest res = formatMultiLegRoute (map nodeId nrs) (waypoints req) fl Fastest"
proof (cases "falsy (startLat req) \<or> falsy (startLon req) \<or> falsy (endLat req) \<or>
    falsy (endLon req)")
  case True
  with assms show ?thesis by (simp add: POST_def)
next
  case False
  show ?thesis
  proof (cases "promiseAll (map (resolvePoint d) (allPoints req))")
    case (Inl e)
    with False assms show ?thesis by (simp add: POST_def Let_def)
  next
    case (Inr nrs)
    show ?thesis
    proof (cases "filter (\<lambda>n. \<not> found n) nrs = []")
      case nonempty: False
      with False Inr assms show ?thesis by (simp add: POST_def Let_def)
    next
      case True
      with False Inr assms have sr: "fst (searchRoutes d req nrs) = Ok res"
        by (simp add: POST_def Let_def)
      let ?s = "fst (calculateMultiLegRoute d req Shortest (map nodeId nrs) (allPoints req))"
      let ?f = "fst (calculateMultiLegRoute d req Fastest (map nodeId nrs) (allPoints req))"
      show ?thesis
      proof (cases ?s)
        case (Inl e)
        with sr show ?thesis by (simp add: searchRoutes_def Let_def)
      next
        case s: (Inr sl)
        show ?thesis
        proof (cases ?f)
          case (Inl e)
          with s sr show ?thesis by (simp add: searchRoutes_def Let_def)
        next
          case f: (Inr fl)
          from sr have "shortest res = formatMultiLegRoute (map nodeId nrs) (waypoints req) sl Shortest \<and>
              fastest res = formatMultiLegRoute (map nodeId nrs) (waypoints req) fl Fastest"
            unfolding searchRoutes_cases [OF s f] by (auto split: if_splits)
          with Inr s f show ?thesis by blast
        qed
      qed
    qed
  qed
qed

text \<open>
  Claim C9. The time metric runs on the time query and the distance metric on the
  distance query: every leg of a metric is the answer of pgr_dijkstra to that metric's
  query, the queries a metric's pipeline sends are all that metric's query, and the
  route in the \<open>fastest\<close> slot of the response is stitched from the legs of the time
  pipeline. The clause of the time query is the clause of the distance query with
  \<open>cost_s IS NOT NULL\<close> put in front: a row is admitted for time exactly when its
  \<open>cost_s\<close> is not null and it is admitted for distance; admission for distance does
  not read \<open>cost_s\<close>; and these two are the only route queries the handler sends.
\<close>

theorem time_predicate:
  "whereClause (fastestRouteQuery req) = CostSIsNotNull # whereClause (shortestRouteQuery req) \<and>
   costColumn (fastestRouteQuery req) = CostS \<and>
   costColumn (shortestRouteQuery req) = LengthM \<and>
   (admits S (whereClause (fastestRouteQuery req)) w \<longleftrightarrow>
      cost_s w \<noteq> None \<and> admits S (whereClause (shortestRouteQuery req)) w) \<and>
   admits S (whereClause (shortestRouteQuery req)) (w\<lparr>cost_s := c\<rparr>) =
     admits S (whereClause (shortestRouteQuery req)) w \<and>
   (\<forall>q a b. Dijkstra q a b \<in> set (snd (POST d req)) \<longrightarrow>
      q = shortestRouteQuery req \<or> q = fastestRouteQuery req) \<and>
   calculateLegRoute d req Fastest a b = pgr_dijkstra d (fastestRouteQuery req) a b \<and>
   calculateLegRoute d req Shortest a b = pgr_dijkstra d (shortestRouteQuery req) a b \<and>
   set (snd (calculateMultiLegRoute d req Fastest nodeIds pts))
     \<subseteq> {x. \<exists>a b. x = Dijkstra (fastestRouteQuery req) a b} \<and>
   set (snd (calculateMultiLegRoute d req Shortest nodeIds pts))
     \<subseteq> {x. \<exists>a b. x = Dijkstra (shortestRouteQuery req) a b} \<and>
   (fst (POST d req) = Ok res \<longrightarrow>
      (\<exists>nrs sl fl.
          promiseAll (map (resolvePoint d) (allPoints req)) = Inr nrs \<and>
          fst (calculateMultiLegRoute d req Shortest (map nodeId nrs) (allPoints req)) = Inr sl \<and>
          fst (calculateMultiLegRoute d req Fastest (map nodeId nrs) (allPoints req)) = Inr fl \<and>
          shortest res = formatMultiLegRoute (map nodeId nrs) (waypoints req) sl Shortest \<and>
          fastest res = formatMultiLegRoute (map nodeId nrs) (waypoints req) fl Fastest))"
proof -
  have clause: "whereClause (fastestRouteQuery req) =
      CostSIsNotNull # whereClause (shortestRouteQuery req)"
    by (simp add: buildWhereClause_def fastestRouteQuery_def shortestRouteQuery_def)
  have cols: "costColumn (fastestRouteQuery req) = CostS"
    "costColumn (shortestRouteQuery req) = LengthM"
    by (simp_all add: fastestRouteQuery_def shortestRouteQuery_def)
  have sem: "admits S (whereClause (fastestRouteQuery req)) w \<longleftrightarrow>
      cost_s w \<noteq> None \<and> admits S (whereClause (shortestRouteQuery req)) w"
    unfolding clause by (simp add: admits_def)
  have indep: "admits S (whereClause (shortestRouteQuery req)) (w\<lparr>cost_s := c\<rparr>) =
      admits S (whereClause (shortestRouteQuery req)) w"
    by (simp add: shortestRouteQuery_def buildWhereClause_admits admits_areas tagged_cost_s)
  have log: "\<forall>q a b. Dijkstra q a b \<in> set (snd (POST d req)) \<longrightarrow>
      q = shortestRouteQuery req \<or> q = fastestRouteQuery req"
    using POST_log [of d req] by auto
  have qf: "queryOf req Fastest = fastestRouteQuery req"
    and qs: "queryOf req Shortest = shortestRouteQuery req"
    by (simp_all add: queryOf_def)
  have legf: "calculateLegRoute d req Fastest a b = pgr_dijkstra d (fastestRouteQuery req) a b"
    by (simp add: calculateLegRoute_def Let_def qf)
  have legs: "calculateLegRoute d req Shortest a b = pgr_dijkstra d (shortestRouteQuery req) a b"
    by (simp add: calculateLegRoute_def Let_def qs)
  have logf: "set (snd (calculateMultiLegRoute d req Fastest nodeIds pts))
      \<subseteq> {x. \<exists>a b. x = Dijkstra (fastestRouteQuery req) a b}"
    unfolding calculateMultiLegRoute_def qf [symmetric] by (rule legLoop_log)
  have logs: "set (snd (calculateMultiLegRoute d req Shortest nodeIds pts))
      \<subseteq> {x. \<exists>a b. x = Dijkstra (shortestRouteQuery req) a b}"
    unfolding calculateMultiLegRoute_def qs [symmetric] by (rule legLoop_log)
  have post: "fst (POST d req) = Ok res \<longrightarrow>
      (\<exists>nrs sl fl.
          promiseAll (map (resolvePoint d) (allPoints req)) = Inr nrs \<and>
          fst (calculateMultiLegRoute d req Shortest (map nodeId nrs) (allPoints req)) = Inr sl \<and>
          fst (calculateMultiLegRoute d req Fastest (map nodeId nrs) (allPoints req)) = Inr fl \<and>
          shortest res = formatMultiLegRoute (map nodeId nrs) (waypoints req) sl Shortest \<and>
          fastest res = formatMultiLegRoute (map nodeId nrs) (waypoints req) fl Fastest)"
    by (rule impI) (rule POST_Ok)
  show ?thesis
    by (intro conjI) (rule clause cols sem indep log legf legs logf logs post)+
qed

theorem time_predicate_witness:
  "cost_s demo_way = None \<and>
   admits demo_store (whereClause (shortestRouteQuery demo_request)) demo_way \<and>
   \<not> admits demo_store (whereClause (fastestRouteQuery demo_request)) demo_way \<and>
   calculateLegRoute demo_db demo_request Fastest (Some 7) (Some 7) = Inr [] \<and>
   calculateLegRoute demo_db demo_request Shortest (Some 7) (Some 7) =
     Inr [demo_row 1 0, demo_row 2 3]"
proof -
  have n: "cost_s demo_way = None" by (simp add: demo_way_def)
  have a: "admits demo_store (whereClause (shortestRouteQuery demo_request)) demo_way"
    by (simp add: shortestRouteQuery_def buildWhereClause_def demo_request_def truthy_gt_def
        falsy_def areaCondition_eq orElse_def admits_def demo_store_def demo_way_def)
  note t = time_predicate [where req = demo_request and S = demo_store and w = demo_way
      and d = demo_db and a = "Some 7" and b = "Some 7"]
  from t n have b: "\<not> admits demo_store (whereClause (fastestRouteQuery demo_request)) demo_way"
    by blast
  have qf: "pgr_dijkstra demo_db (fastestRouteQuery demo_request) (Some 7) (Some 7) = Inr []"
    by (simp add: demo_db_def fastestRouteQuery_def)
  have qs: "pgr_dijkstra demo_db (shortestRouteQuery demo_request) (Some 7) (Some 7) =
      Inr [demo_row 1 0, demo_row 2 3]"
    by (simp add: demo_db_def shortestRouteQuery_def)
  from t qf have f: "calculateLegRoute demo_db demo_request Fastest (Some 7) (Some 7) = Inr []"
    by simp
  from t qs have s: "calculateLegRoute demo_db demo_request Shortest (Some 7) (Some 7) =
      Inr [demo_row 1 0, demo_row 2 3]"
    by simp
  show ?thesis by (rule conjI [OF n conjI [OF a conjI [OF b conjI [OF f s]]]])
qed

end
